theory Spec2Isabelle
  imports Main "HOL-Library.Word"
begin

unbundle bit_operations_syntax

section \<open>The B+Tree node codec of package index\<close>

text \<open>
  A shallow embedding of the node accessors of the B+Tree page format.  A node is a
  byte buffer laid out as

  \<^verbatim>\<open>| type 2B | nkeys 2B | pointers nkeys * 8B | offsets nkeys * 2B | key-values |\<close>

  with each key-value record stored as \<^verbatim>\<open>| klen 2B | vlen 2B | key | val |\<close>.
  All positions are \<open>uint16\<close> values, so the arithmetic on them wraps at \<open>2 ^ 16\<close>.
  A failed \<open>assert\<close> and an out-of-range slice expression both panic; a panic is the
  \<open>Inl\<close> branch of every result.
\<close>

subsection \<open>Machine types, constants and panics\<close>

type_synonym byte = "8 word"
type_synonym uint16 = "16 word"
type_synonym uint64 = "64 word"

text \<open>
  \<open>AssertPanic msg\<close> is the panic raised by \<open>assert\<close> with the formatted message;
  \<open>BoundsPanic\<close> is the run-time panic of a slice or index expression out of range.
\<close>

datatype panic = AssertPanic string | BoundsPanic

definition BNode_Node :: uint16 where
  "BNode_Node = 0"

definition BNode_Leaf :: uint16 where
  "BNode_Leaf = 1"

text \<open>\<open>Header\<close> is an untyped constant; every use in the source is in \<open>uint16\<close> arithmetic.\<close>

definition Header :: uint16 where
  "Header = 4"

definition BTreePageSize :: nat where
  "BTreePageSize = 4096"

definition BTreeMaxKeySize :: nat where
  "BTreeMaxKeySize = 1000"

definition BTreeMaxValSize :: nat where
  "BTreeMaxValSize = 3000"

text \<open>
  The struct \<open>BNode\<close> holds one slice.  The list \<open>data\<close> is the content of that slice
  up to its capacity: slice expressions on a slice are checked against the capacity,
  and the accessors never consult the length.  For a buffer made by \<open>make([]byte, n)\<close>
  length and capacity agree.
\<close>

record BNode =
  data :: "byte list"

fun pbind :: "panic + 'a \<Rightarrow> ('a \<Rightarrow> panic + 'b) \<Rightarrow> panic + 'b" where
  "pbind (Inl e) f = Inl e"
| "pbind (Inr x) f = f x"

text \<open>\<open>assert(cond, msg)\<close>: panics with \<open>"assertion failed: " + msg\<close> unless \<open>cond\<close> holds.\<close>

definition assert :: "bool \<Rightarrow> string \<Rightarrow> panic + unit" where
  "assert cond msg =
     (if \<not> cond then Inl (AssertPanic (''assertion failed: '' @ msg)) else Inr ())"

subsection \<open>Slices and the little-endian byte order\<close>

text \<open>
  The slice expression \<open>b[lo:hi]\<close>: in range when \<open>lo \<le> hi \<le> cap(b)\<close>, a run-time
  panic otherwise.  The result shares its bytes with \<open>b\<close>; a write through it is put
  back into \<open>b\<close> by \<open>slice_store\<close>.
\<close>

definition slice :: "byte list \<Rightarrow> nat \<Rightarrow> nat \<Rightarrow> panic + byte list" where
  "slice b lo hi =
     (if lo \<le> hi \<and> hi \<le> length b then Inr (take (hi - lo) (drop lo b)) else Inl BoundsPanic)"

definition slice_store :: "byte list \<Rightarrow> nat \<Rightarrow> byte list \<Rightarrow> byte list" where
  "slice_store b lo s = take lo b @ s @ drop (lo + length s) b"

text \<open>\<open>binary.LittleEndian.Uint16\<close>: the bounds check \<open>_ = b[1]\<close>, then \<open>b[0] | b[1]<<8\<close>.\<close>

definition Uint16 :: "byte list \<Rightarrow> panic + uint16" where
  "Uint16 b =
     (if length b \<le> 1 then Inl BoundsPanic
      else Inr (ucast (b ! 0) OR push_bit 8 (ucast (b ! 1))))"

text \<open>\<open>binary.LittleEndian.PutUint16\<close>: \<open>b[0] = byte(v)\<close>, \<open>b[1] = byte(v >> 8)\<close>.\<close>

definition PutUint16 :: "byte list \<Rightarrow> uint16 \<Rightarrow> panic + byte list" where
  "PutUint16 b v =
     (if length b \<le> 1 then Inl BoundsPanic
      else Inr (b[0 := ucast v, 1 := ucast (drop_bit 8 v)]))"

text \<open>\<open>binary.LittleEndian.Uint64\<close>: the bounds check \<open>_ = b[7]\<close>, then the eight bytes.\<close>

definition Uint64 :: "byte list \<Rightarrow> panic + uint64" where
  "Uint64 b =
     (if length b \<le> 7 then Inl BoundsPanic
      else Inr (ucast (b ! 0) OR push_bit 8 (ucast (b ! 1)) OR push_bit 16 (ucast (b ! 2))
                OR push_bit 24 (ucast (b ! 3)) OR push_bit 32 (ucast (b ! 4))
                OR push_bit 40 (ucast (b ! 5)) OR push_bit 48 (ucast (b ! 6))
                OR push_bit 56 (ucast (b ! 7))))"

definition PutUint64 :: "byte list \<Rightarrow> uint64 \<Rightarrow> panic + byte list" where
  "PutUint64 b v =
     (if length b \<le> 7 then Inl BoundsPanic
      else Inr (b[0 := ucast v, 1 := ucast (drop_bit 8 v), 2 := ucast (drop_bit 16 v),
                  3 := ucast (drop_bit 24 v), 4 := ucast (drop_bit 32 v),
                  5 := ucast (drop_bit 40 v), 6 := ucast (drop_bit 48 v),
                  7 := ucast (drop_bit 56 v)]))"

subsection \<open>The accessors\<close>

text \<open>
  A setter mutates the buffer in place; the model returns the updated node.  A setter
  that panics returns only the panic.
\<close>

definition bType :: "BNode \<Rightarrow> panic + uint16" where
  "bType node = pbind (slice (data node) 0 2) Uint16"

definition numKeys :: "BNode \<Rightarrow> panic + uint16" where
  "numKeys node = pbind (slice (data node) 2 4) Uint16"

definition setHeader :: "BNode \<Rightarrow> uint16 \<Rightarrow> uint16 \<Rightarrow> panic + BNode" where
  "setHeader node bt nk =
     pbind (slice (data node) 0 2) (\<lambda>s.
     pbind (PutUint16 s bt) (\<lambda>s'.
     let node' = node\<lparr>data := slice_store (data node) 0 s'\<rparr> in
     pbind (slice (data node') 2 4) (\<lambda>t.
     pbind (PutUint16 t nk) (\<lambda>t'.
     Inr (node'\<lparr>data := slice_store (data node') 2 t'\<rparr>)))))"

definition getPtr :: "BNode \<Rightarrow> uint16 \<Rightarrow> panic + uint64" where
  "getPtr node i =
     (let pos = Header + i * 8 in
      pbind (slice (data node) (unat pos) (unat (pos + 8))) Uint64)"

definition setPtr :: "BNode \<Rightarrow> uint16 \<Rightarrow> uint64 \<Rightarrow> panic + BNode" where
  "setPtr node i ptr =
     (let pos = Header + i * 8 in
      pbind (slice (data node) (unat pos) (unat (pos + 8))) (\<lambda>s.
      pbind (PutUint64 s ptr) (\<lambda>s'.
      Inr (node\<lparr>data := slice_store (data node) (unat pos) s'\<rparr>))))"

text \<open>
  \<open>offsetPos\<close>: the condition \<open>1 <= idx && idx <= node.numKeys()\<close> short-circuits, so
  the header is not read when \<open>idx\<close> is 0.
\<close>

definition offsetPos :: "BNode \<Rightarrow> uint16 \<Rightarrow> panic + uint16" where
  "offsetPos node idx =
     pbind (if 1 \<le> idx then pbind (numKeys node) (\<lambda>n. Inr (idx \<le> n)) else Inr False) (\<lambda>c.
     pbind (assert c ''offsetPos: idx out of range'') (\<lambda>_.
     pbind (numKeys node) (\<lambda>n.
     Inr (Header + n * 8 + (idx - 1) * 2))))"

definition getOffset :: "BNode \<Rightarrow> uint16 \<Rightarrow> panic + uint16" where
  "getOffset node idx =
     pbind (offsetPos node idx) (\<lambda>pos.
     pbind (slice (data node) (unat pos) (unat (pos + 2))) Uint16)"

definition setOffset :: "BNode \<Rightarrow> uint16 \<Rightarrow> uint16 \<Rightarrow> panic + BNode" where
  "setOffset node idx offset =
     pbind (offsetPos node idx) (\<lambda>pos.
     pbind (slice (data node) (unat pos) (unat (pos + 2))) (\<lambda>s.
     pbind (PutUint16 s offset) (\<lambda>s'.
     Inr (node\<lparr>data := slice_store (data node) (unat pos) s'\<rparr>))))"

definition kvPos :: "BNode \<Rightarrow> uint16 \<Rightarrow> panic + uint16" where
  "kvPos node idx =
     pbind (numKeys node) (\<lambda>n.
     pbind (assert (idx \<le> n) ''kvPos: idx out of range'') (\<lambda>_.
     pbind (numKeys node) (\<lambda>n1.
     pbind (numKeys node) (\<lambda>n2.
     pbind (getOffset node idx) (\<lambda>off.
     Inr (Header + 8 * n1 + 2 * n2 + off))))))"

definition getKey :: "BNode \<Rightarrow> uint16 \<Rightarrow> panic + byte list" where
  "getKey node idx =
     pbind (numKeys node) (\<lambda>n.
     pbind (assert (idx \<le> n) ''getKey: idx out of range'') (\<lambda>_.
     pbind (kvPos node idx) (\<lambda>pos.
     pbind (slice (data node) (unat pos) (unat (pos + 2))) (\<lambda>s.
     pbind (Uint16 s) (\<lambda>klen.
     slice (data node) (unat (pos + 4)) (unat (pos + 4 + klen)))))))"

definition getVal :: "BNode \<Rightarrow> uint16 \<Rightarrow> panic + byte list" where
  "getVal node idx =
     pbind (numKeys node) (\<lambda>n.
     pbind (assert (idx \<le> n) ''getVal: idx out of range'') (\<lambda>_.
     pbind (kvPos node idx) (\<lambda>pos.
     pbind (slice (data node) (unat pos) (unat (pos + 2))) (\<lambda>s.
     pbind (Uint16 s) (\<lambda>klen.
     pbind (slice (data node) (unat (pos + 2)) (unat (pos + 4))) (\<lambda>t.
     pbind (Uint16 t) (\<lambda>vlen.
     slice (data node) (unat (pos + 4 + klen)) (unat (pos + 4 + klen + vlen)))))))))"

text \<open>Node size in bytes.\<close>

definition numBytes :: "BNode \<Rightarrow> panic + uint16" where
  "numBytes node = pbind (numKeys node) (\<lambda>n. kvPos node n)"

subsection \<open>Reading the byte layout\<close>

text \<open>
  The bytes an accessor touches, written as plain list operations: \<open>le16_at b p\<close> is
  the 16-bit value whose low byte is \<open>b ! p\<close> and whose high byte is \<open>b ! (p + 1)\<close>,
  \<open>put16_at b p v\<close> stores the low byte of \<open>v\<close> at \<open>p\<close> and its high byte at \<open>p + 1\<close>;
  \<open>le64_at\<close> and \<open>put64_at\<close> do the same for eight bytes.  The theorems below
  relate the accessors to them.
\<close>

definition le16_at :: "byte list \<Rightarrow> nat \<Rightarrow> uint16" where
  "le16_at b p = ucast (b ! p) OR push_bit 8 (ucast (b ! (p + 1)))"

definition put16_at :: "byte list \<Rightarrow> nat \<Rightarrow> uint16 \<Rightarrow> byte list" where
  "put16_at b p v = b[p := ucast v, p + 1 := ucast (drop_bit 8 v)]"

definition le64_at :: "byte list \<Rightarrow> nat \<Rightarrow> uint64" where
  "le64_at b p =
     ucast (b ! p) OR push_bit 8 (ucast (b ! (p + 1))) OR push_bit 16 (ucast (b ! (p + 2)))
       OR push_bit 24 (ucast (b ! (p + 3))) OR push_bit 32 (ucast (b ! (p + 4)))
       OR push_bit 40 (ucast (b ! (p + 5))) OR push_bit 48 (ucast (b ! (p + 6)))
       OR push_bit 56 (ucast (b ! (p + 7)))"

definition put64_at :: "byte list \<Rightarrow> nat \<Rightarrow> uint64 \<Rightarrow> byte list" where
  "put64_at b p v =
     b[p := ucast v, p + 1 := ucast (drop_bit 8 v), p + 2 := ucast (drop_bit 16 v),
       p + 3 := ucast (drop_bit 24 v), p + 4 := ucast (drop_bit 32 v),
       p + 5 := ucast (drop_bit 40 v), p + 6 := ucast (drop_bit 48 v),
       p + 7 := ucast (drop_bit 56 v)]"

subsection \<open>Writing a node\<close>

text \<open>
  Modelled from the spec: the Node Builder, which writes the records of a node, is not
  part of the source.  \<open>putRecord\<close> writes one length-prefixed record
  \<^verbatim>\<open>| klen 2B | vlen 2B | key | val |\<close> at a byte position, and \<open>encode\<close> builds a
  node the way the spec describes an encoding: the header with \<open>setHeader\<close>, each
  child pointer with \<open>setPtr\<close>, each entry-end offset with \<open>setOffset\<close>, each
  record at its record position, which is the end of the header and of the two arrays
  plus the end offset of the record before it.
\<close>

definition putRecord :: "BNode \<Rightarrow> uint16 \<Rightarrow> byte list \<Rightarrow> byte list \<Rightarrow> panic + BNode" where
  "putRecord node pos key val =
     (let klen = of_nat (length key) :: uint16; vlen = of_nat (length val) :: uint16 in
      pbind (slice (data node) (unat pos) (unat (pos + 2))) (\<lambda>s.
      pbind (PutUint16 s klen) (\<lambda>s'.
      let node1 = node\<lparr>data := slice_store (data node) (unat pos) s'\<rparr> in
      pbind (slice (data node1) (unat (pos + 2)) (unat (pos + 4))) (\<lambda>t.
      pbind (PutUint16 t vlen) (\<lambda>t'.
      let node2 = node1\<lparr>data := slice_store (data node1) (unat (pos + 2)) t'\<rparr> in
      pbind (slice (data node2) (unat (pos + 4)) (unat (pos + 4) + length key)) (\<lambda>_.
      let node3 = node2\<lparr>data := slice_store (data node2) (unat (pos + 4)) key\<rparr> in
      pbind (slice (data node3) (unat (pos + 4 + klen)) (unat (pos + 4 + klen) + length val)) (\<lambda>_.
      Inr (node3\<lparr>data := slice_store (data node3) (unat (pos + 4 + klen)) val\<rparr>))))))))"

text \<open>
  Modelled from the spec: the loop of the Node Builder over the entries of a node, not
  part of the source.  An entry is a child pointer, a key and a value.  Entry \<open>idx\<close>
  gets its pointer in slot \<open>idx\<close>, the end of its record in the offset slot
  \<open>idx + 1\<close>, and its record at the end of the record before it.
\<close>

type_synonym entry = "uint64 \<times> byte list \<times> byte list"

fun putEntries :: "BNode \<Rightarrow> uint16 \<Rightarrow> uint16 \<Rightarrow> uint16 \<Rightarrow> entry list \<Rightarrow> panic + BNode" where
  "putEntries node n idx off [] = Inr node"
| "putEntries node n idx off ((ptr, key, val) # es) =
     (let e = off + 4 + of_nat (length key) + of_nat (length val) in
      pbind (setPtr node idx ptr) (\<lambda>node1.
      pbind (setOffset node1 (idx + 1) e) (\<lambda>node2.
      pbind (putRecord node2 (Header + 8 * n + 2 * n + off) key val) (\<lambda>node3.
      putEntries node3 n (idx + 1) e es))))"

text \<open>
  Modelled from the spec: the encoding of a whole node into a buffer, not part of the
  source: the header with the kind and the number of entries, then the entries.
\<close>

definition encode :: "BNode \<Rightarrow> uint16 \<Rightarrow> entry list \<Rightarrow> panic + BNode" where
  "encode buf kind es =
     (let n = of_nat (length es) :: uint16 in
      pbind (setHeader buf kind n) (\<lambda>node. putEntries node n 0 0 es))"

subsection \<open>The layout of an encoded node\<close>

text \<open>
  What the bytes of a buffer must be for it to hold a list of entries, as the layout
  gives it: \<open>rec_size\<close> is the size of a record with its two length fields,
  \<open>recs_size\<close> the size of a run of records.  \<open>entry_ok d N i off e\<close> says that the
  buffer \<open>d\<close> of a node with \<open>N\<close> keys holds the entry \<open>e\<close> as its entry \<open>i\<close>, with
  the record at offset \<open>off\<close> of the record region: the pointer in slot \<open>i\<close>, the end
  of the record in the offset slot after it, the two lengths, the key and the value.
  \<open>in_entry\<close> and \<open>in_entries\<close> are the byte positions that belong to one entry
  and to a run of entries.
\<close>

fun rec_size :: "entry \<Rightarrow> nat" where
  "rec_size (ptr, key, val) = 4 + length key + length val"

fun recs_size :: "entry list \<Rightarrow> nat" where
  "recs_size [] = 0"
| "recs_size (e # es) = rec_size e + recs_size es"

fun entry_ok :: "byte list \<Rightarrow> nat \<Rightarrow> nat \<Rightarrow> nat \<Rightarrow> entry \<Rightarrow> bool" where
  "entry_ok d N i off (ptr, key, val) =
     (le64_at d (4 + 8 * i) = ptr
      \<and> le16_at d (4 + 8 * N + 2 * i) = of_nat (off + (4 + length key + length val))
      \<and> le16_at d (4 + 10 * N + off) = of_nat (length key)
      \<and> le16_at d (4 + 10 * N + off + 2) = of_nat (length val)
      \<and> take (length key) (drop (4 + 10 * N + off + 4) d) = key
      \<and> take (length val) (drop (4 + 10 * N + off + 4 + length key) d) = val)"

fun entries_ok :: "byte list \<Rightarrow> nat \<Rightarrow> nat \<Rightarrow> nat \<Rightarrow> entry list \<Rightarrow> bool" where
  "entries_ok d N i off [] = True"
| "entries_ok d N i off (e # es) =
     (entry_ok d N i off e \<and> entries_ok d N (i + 1) (off + rec_size e) es)"

definition in_entry :: "nat \<Rightarrow> nat \<Rightarrow> nat \<Rightarrow> nat \<Rightarrow> nat \<Rightarrow> bool" where
  "in_entry N i off sz q =
     ((4 + 8 * i \<le> q \<and> q < 4 + 8 * i + 8)
      \<or> (4 + 8 * N + 2 * i \<le> q \<and> q < 4 + 8 * N + 2 * i + 2)
      \<or> (4 + 10 * N + off \<le> q \<and> q < 4 + 10 * N + off + sz))"

definition in_entries :: "nat \<Rightarrow> nat \<Rightarrow> nat \<Rightarrow> nat \<Rightarrow> nat \<Rightarrow> nat \<Rightarrow> bool" where
  "in_entries N i cnt off sz q =
     ((4 + 8 * i \<le> q \<and> q < 4 + 8 * (i + cnt))
      \<or> (4 + 8 * N + 2 * i \<le> q \<and> q < 4 + 8 * N + 2 * (i + cnt))
      \<or> (4 + 10 * N + off \<le> q \<and> q < 4 + 10 * N + off + sz))"

subsection \<open>The tree\<close>

text \<open>
  The struct \<open>BTree\<close> holds the root page number and the three callbacks \<open>get\<close>,
  \<open>new\<close> and \<open>del\<close> of the page store.  The state behind the callbacks is made
  explicit: \<open>pages\<close> maps each live page number to its node, and \<open>calls\<close> records
  every \<open>new\<close> and \<open>del\<close> made so far.
\<close>

datatype store_call = New BNode | Del uint64

record BTree =
  root :: uint64
  pages :: "uint64 \<rightharpoonup> BNode"
  calls :: "store_call list"

datatype insert_error = Oversize

text \<open>
  Modelled from the spec: \<open>Insert\<close> is not part of the source, which declares only the
  struct.  The spec has it fail at once, without touching the tree, when the key is
  longer than \<open>BTreeMaxKeySize\<close> or the value longer than \<open>BTreeMaxValSize\<close>, and
  otherwise descend to a leaf and rebuild the path; that second part, \<open>descend\<close>, is a
  parameter.
\<close>

definition Insert ::
  "(BTree \<Rightarrow> byte list \<Rightarrow> byte list \<Rightarrow> BTree) \<Rightarrow> BTree \<Rightarrow> byte list \<Rightarrow> byte list
     \<Rightarrow> (insert_error + unit) \<times> BTree" where
  "Insert descend tree key val =
     (if length key > BTreeMaxKeySize \<or> length val > BTreeMaxValSize then (Inl Oversize, tree)
      else (Inr (), descend tree key val))"

subsection \<open>Example pages\<close>

text \<open>
  \<open>zero_page\<close> is a fresh page, \<open>make([]byte, BTreePageSize)\<close>.  \<open>empty_leaf\<close> is a
  page holding a leaf without keys.  \<open>leaf_one\<close> is a page holding a leaf with the one
  record \<open>("hello", "world")\<close>: the header \<open>(1, 1)\<close>, one child pointer 0 at bytes
  4 to 11, the offset slot at bytes 12 and 13 holding 14, and the record at bytes 14
  to 27.  \<open>node_two\<close> is a page holding an internal node with the child pointers 7
  and 9 and the separator keys \<open>"hello"\<close> and \<open>"world"\<close>: the offset slots at bytes
  20 to 23 hold 9 and 18, the records start at byte 24.  \<open>leaf_max\<close> is a page
  holding a leaf with one record of 1000 key bytes and 3000 value bytes, the offset
  slot holding 4004.  \<open>two_max\<close> is a buffer of 8032 bytes holding a leaf with two
  such records, the offset slots holding 4004 and 8008.
\<close>

definition zero_page :: BNode where
  "zero_page = \<lparr>data = replicate 4096 0\<rparr>"

definition empty_leaf :: BNode where
  "empty_leaf = \<lparr>data = [1, 0, 0, 0] @ replicate 4092 0\<rparr>"

definition hello :: "byte list" where
  "hello = [104, 101, 108, 108, 111]"

definition world :: "byte list" where
  "world = [119, 111, 114, 108, 100]"

definition leaf_one :: BNode where
  "leaf_one = \<lparr>data = [1, 0, 1, 0] @ [0, 0, 0, 0, 0, 0, 0, 0] @ [14, 0]
                  @ [5, 0, 5, 0] @ hello @ world @ replicate 4068 0\<rparr>"

definition node_two :: BNode where
  "node_two = \<lparr>data = [0, 0, 2, 0] @ [7, 0, 0, 0, 0, 0, 0, 0] @ [9, 0, 0, 0, 0, 0, 0, 0]
                  @ [9, 0, 18, 0] @ [5, 0, 0, 0] @ hello @ [5, 0, 0, 0] @ world
                  @ replicate 4054 0\<rparr>"

definition leaf_max :: BNode where
  "leaf_max = \<lparr>data = [1, 0, 1, 0] @ replicate 8 0 @ [164, 15]
                  @ [232, 3, 184, 11] @ replicate 1000 0 @ replicate 3000 0
                  @ replicate 78 0\<rparr>"

definition two_max :: BNode where
  "two_max = \<lparr>data = [1, 0, 2, 0] @ replicate 16 0 @ [164, 15, 72, 31]
                 @ [232, 3, 184, 11] @ replicate 1000 0 @ replicate 3000 0
                 @ [232, 3, 184, 11] @ replicate 1000 0 @ replicate 3000 0\<rparr>"

section \<open>Bytes, words and slices\<close>

text \<open>The two bytes of a 16-bit value, low byte first, and back.\<close>

lemma le16_roundtrip:
  "(ucast (ucast (v::uint16) :: byte) :: uint16) OR push_bit 8 (ucast (ucast (drop_bit 8 v) :: byte)) = v"
  by (rule bit_word_eqI) (auto simp: bit_simps)

lemma low_byte: "unat (ucast (v::uint16) :: byte) = unat v mod 256"
  by (simp add: unsigned_ucast_eq take_bit_eq_mod)

lemma high_byte: "unat (ucast (drop_bit 8 (v::uint16)) :: byte) = unat v div 256"
proof -
  have "unat v < 65536" using unsigned_less [of v, where 'a=nat] by simp
  then have "unat v div 256 < 256" by simp
  then show ?thesis
    by (simp add: unsigned_ucast_eq unat_drop_bit_eq take_bit_eq_mod drop_bit_eq_div unat_div_distrib)
qed

lemma unat_le16:
  "unat ((ucast (a::byte) :: uint16) OR push_bit 8 (ucast (b::byte))) = unat a + 256 * unat b"
proof -
  have a: "unat a < 256" using unsigned_less [of a, where 'a=nat] by simp
  have b: "unat b < 256" using unsigned_less [of b, where 'a=nat] by simp
  have "(ucast a :: uint16) OR push_bit 8 (ucast b) = ucast a + push_bit 8 (ucast b)"
    by (rule disjunctive_add_eq_or [symmetric], rule bit_word_eqI) (auto simp: bit_simps dest: bit_imp_le_length)
  then have "unat ((ucast a :: uint16) OR push_bit 8 (ucast b)) = unat ((ucast a :: uint16) + push_bit 8 (ucast b))"
    by simp
  also have "\<dots> = unat a + 256 * unat b"
    using a b by (simp add: unat_word_ariths unsigned_ucast_eq unsigned_push_bit_eq take_bit_eq_mod push_bit_eq_mult)
  finally show ?thesis .
qed

lemma unat_le16_at: "unat (le16_at b p) = unat (b ! p) + 256 * unat (b ! (p + 1))"
  by (simp add: le16_at_def unat_le16)


text \<open>A write through a sub-slice is a write into the buffer at the slice's position.\<close>

lemma slice_store_update:
  assumes "k < length s" "p \<le> length b"
  shows "slice_store b p (s[k := x]) = (slice_store b p s)[p + k := x]"
  using assms by (simp add: slice_store_def list_update_append)

lemma slice_store_same:
  assumes "p + n \<le> length b"
  shows "slice_store b p (take n (drop p b)) = b"
proof -
  have "take n (drop p b) @ drop (p + n) b = drop p b"
    by (metis add.commute append_take_drop_id drop_drop)
  then show ?thesis using assms by (simp add: slice_store_def min_absorb2)
qed

lemma read16_slice:
  assumes "p + 2 \<le> length b"
  shows "pbind (slice b p (p + 2)) Uint16 = Inr (le16_at b p)"
  using assms by (simp add: slice_def Uint16_def le16_at_def)

lemma read16_bind:
  assumes "hi = p + 2" "hi \<le> length b"
  shows "pbind (slice b p hi) (\<lambda>s. pbind (Uint16 s) k) = k (le16_at b p)"
  using assms by (simp add: slice_def Uint16_def le16_at_def)

lemma PutUint16_slice:
  assumes "p + 2 \<le> length b"
  shows "slice b p (p + 2) = Inr (take 2 (drop p b))"
    and "PutUint16 (take 2 (drop p b)) v = Inr ((take 2 (drop p b))[0 := ucast v, 1 := ucast (drop_bit 8 v)])"
    and "slice_store b p ((take 2 (drop p b))[0 := ucast v, 1 := ucast (drop_bit 8 v)]) = put16_at b p v"
  using assms by (simp_all add: slice_def PutUint16_def put16_at_def slice_store_update slice_store_same)

lemma write16_slice:
  assumes "p + 2 \<le> length b"
  shows "pbind (slice b p (p + 2)) (\<lambda>s. pbind (PutUint16 s v) (\<lambda>s'. Inr (f (slice_store b p s'))))
         = Inr (f (put16_at b p v))"
  using assms
  by (simp add: slice_def PutUint16_def put16_at_def slice_store_update slice_store_same)

lemma write16_bind:
  assumes "hi = p + 2" "hi \<le> length b"
  shows "pbind (slice b p hi) (\<lambda>s. pbind (PutUint16 s v) (\<lambda>s'. k (slice_store b p s')))
         = k (put16_at b p v)"
proof -
  have "p + 2 \<le> length b" using assms by simp
  from PutUint16_slice [OF this] show ?thesis
    by (simp only: assms(1) pbind.simps)
qed

lemma write16_bind0:
  assumes "2 \<le> length b"
  shows "pbind (slice b 0 2) (\<lambda>s. pbind (PutUint16 s v) (\<lambda>s'. k (slice_store b 0 s')))
         = k (put16_at b 0 v)"
  by (rule write16_bind) (use assms in simp_all)

lemma write16_bind2:
  assumes "4 \<le> length b"
  shows "pbind (slice b 2 4) (\<lambda>s. pbind (PutUint16 s v) (\<lambda>s'. k (slice_store b 2 s')))
         = k (put16_at b 2 v)"
  by (rule write16_bind) (use assms in simp_all)

lemma read64_slice:
  assumes "p + 8 \<le> length b"
  shows "pbind (slice b p (p + 8)) Uint64 = Inr (le64_at b p)"
  using assms by (simp add: slice_def Uint64_def le64_at_def)

lemma write64_slice:
  assumes "p + 8 \<le> length b"
  shows "pbind (slice b p (p + 8)) (\<lambda>s. pbind (PutUint64 s v) (\<lambda>s'. Inr (f (slice_store b p s'))))
         = Inr (f (put64_at b p v))"
  using assms
  by (simp add: slice_def PutUint64_def put64_at_def slice_store_update slice_store_same)

lemma length_put16_at: "length (put16_at b p v) = length b"
  by (simp add: put16_at_def)

lemma length_put64_at: "length (put64_at b p v) = length b"
  by (simp add: put64_at_def)

lemma le16_at_put16_at:
  assumes "p + 2 \<le> length b"
  shows "le16_at (put16_at b p v) p = v"
  using assms by (simp add: le16_at_def put16_at_def le16_roundtrip)

lemma le16_at_put16_at_other:
  assumes "q + 2 \<le> p \<or> p + 2 \<le> q"
  shows "le16_at (put16_at b p v) q = le16_at b q"
  using assms by (auto simp: le16_at_def put16_at_def)

lemma put16_at_header:
  assumes "4 \<le> length b"
  shows "put16_at (put16_at b 0 bt) 2 nk
         = [ucast bt, ucast (drop_bit 8 bt), ucast nk, ucast (drop_bit 8 nk)] @ drop 4 b"
proof -
  from assms obtain b0 r0 where r0: "b = b0 # r0" "3 \<le> length r0" by (cases b) auto
  then obtain b1 r1 where r1: "r0 = b1 # r1" "2 \<le> length r1" by (cases r0) auto
  then obtain b2 r2 where r2: "r1 = b2 # r2" "1 \<le> length r2" by (cases r1) auto
  then obtain b3 r3 where r3: "r2 = b3 # r3" by (cases r2) auto
  show ?thesis by (simp add: put16_at_def r0 r1 r2 r3)
qed


section \<open>The accessors on a buffer that holds the header and both arrays\<close>

lemma numKeys_read:
  assumes "4 \<le> length (data node)"
  shows "numKeys node = Inr (le16_at (data node) 2)"
  using read16_slice [of 2 "data node"] assms by (simp add: numKeys_def)

lemma bType_read:
  assumes "2 \<le> length (data node)"
  shows "bType node = Inr (le16_at (data node) 0)"
  using assms by (simp add: bType_def slice_def Uint16_def le16_at_def)

lemma numKeys_Inr_length:
  assumes "numKeys node = Inr n"
  shows "4 \<le> length (data node)"
  using assms by (auto simp: numKeys_def slice_def split: if_splits)

lemma setHeader_write:
  assumes "4 \<le> length (data node)"
  shows "setHeader node bt nk = Inr (node\<lparr>data := put16_at (put16_at (data node) 0 bt) 2 nk\<rparr>)"
proof -
  have a: "2 \<le> length (data node)" using assms by simp
  have b: "4 \<le> length (put16_at (data node) 0 bt)" using assms by (simp add: length_put16_at)
  have "setHeader node bt nk =
        pbind (slice (data node) 0 2) (\<lambda>s. pbind (PutUint16 s bt) (\<lambda>s'.
          (\<lambda>d. pbind (slice d 2 4) (\<lambda>t. pbind (PutUint16 t nk) (\<lambda>t'.
             Inr (node\<lparr>data := slice_store d 2 t'\<rparr>)))) (slice_store (data node) 0 s')))"
    by (simp add: setHeader_def Let_def)
  also have "\<dots> = pbind (slice (put16_at (data node) 0 bt) 2 4) (\<lambda>t. pbind (PutUint16 t nk) (\<lambda>t'.
             (\<lambda>d. Inr (node\<lparr>data := d\<rparr>)) (slice_store (put16_at (data node) 0 bt) 2 t')))"
    by (simp only: write16_bind0 [OF a, where k = "\<lambda>d. pbind (slice d 2 4) (\<lambda>t. pbind (PutUint16 t nk) (\<lambda>t'.
             Inr (node\<lparr>data := slice_store d 2 t'\<rparr>)))"])
  also have "\<dots> = Inr (node\<lparr>data := put16_at (put16_at (data node) 0 bt) 2 nk\<rparr>)"
    by (simp only: write16_bind2 [OF b, where k = "\<lambda>d. Inr (node\<lparr>data := d\<rparr>)"])
  finally show ?thesis .
qed

lemma setHeader_data:
  assumes "4 \<le> length (data node)"
  shows "setHeader node bt nk =
         Inr (node\<lparr>data := [ucast bt, ucast (drop_bit 8 bt), ucast nk, ucast (drop_bit 8 nk)]
                                @ drop 4 (data node)\<rparr>)"
  by (simp only: setHeader_write [OF assms] put16_at_header [OF assms])

lemma unat_offset_slot:
  fixes n idx :: uint16
  assumes "1 \<le> idx" "idx \<le> n" "4 + 10 * unat n < 65536"
  shows "unat (Header + n * 8 + (idx - 1) * 2) = 4 + 8 * unat n + 2 * (unat idx - 1)"
    and "unat (Header + n * 8 + (idx - 1) * 2 + 2) = 4 + 8 * unat n + 2 * (unat idx - 1) + 2"
proof -
  have i1: "1 \<le> unat idx" using assms(1) by (simp add: word_le_nat_alt)
  have i2: "unat idx \<le> unat n" using assms(2) by (simp add: word_le_nat_alt)
  have s: "unat (idx - 1) = unat idx - 1" using assms(1) by (simp add: unat_sub)
  show "unat (Header + n * 8 + (idx - 1) * 2) = 4 + 8 * unat n + 2 * (unat idx - 1)"
    using i1 i2 assms(3) by (simp add: Header_def unat_word_ariths s)
  show "unat (Header + n * 8 + (idx - 1) * 2 + 2) = 4 + 8 * unat n + 2 * (unat idx - 1) + 2"
    using i1 i2 assms(3) by (simp add: Header_def unat_word_ariths s)
qed

lemma offsetPos_in_range:
  assumes "numKeys node = Inr n" "1 \<le> idx" "idx \<le> n"
  shows "offsetPos node idx = Inr (Header + n * 8 + (idx - 1) * 2)"
  using assms by (simp add: offsetPos_def assert_def)

lemma offsetPos_out_of_range:
  assumes "numKeys node = Inr n" "\<not> (1 \<le> idx \<and> idx \<le> n)"
  shows "offsetPos node idx = Inl (AssertPanic ''assertion failed: offsetPos: idx out of range'')"
  using assms by (auto simp: offsetPos_def assert_def)

lemma offsetPos_zero:
  "offsetPos node 0 = Inl (AssertPanic ''assertion failed: offsetPos: idx out of range'')"
  by (simp add: offsetPos_def assert_def)

lemma getOffset_in_range:
  assumes "numKeys node = Inr n" "1 \<le> idx" "idx \<le> n"
    and "4 + 10 * unat n \<le> length (data node)" "4 + 10 * unat n < 65536"
  shows "getOffset node idx = Inr (le16_at (data node) (4 + 8 * unat n + 2 * (unat idx - 1)))"
proof -
  define pos where "pos = Header + n * 8 + (idx - 1) * 2"
  define q where "q = 4 + 8 * unat n + 2 * (unat idx - 1)"
  have i1: "1 \<le> unat idx" using assms(2) by (simp add: word_le_nat_alt)
  have i2: "unat idx \<le> unat n" using assms(3) by (simp add: word_le_nat_alt)
  have fit: "q + 2 \<le> length (data node)"
    using i1 i2 assms(4) by (simp add: q_def)
  have p: "unat pos = q" "unat (pos + 2) = q + 2"
    using unat_offset_slot [OF assms(2,3,5)] by (simp_all only: pos_def q_def)
  have "getOffset node idx = pbind (slice (data node) (unat pos) (unat (pos + 2))) Uint16"
    by (simp only: getOffset_def offsetPos_in_range [OF assms(1-3)] pbind.simps pos_def)
  also have "\<dots> = Inr (le16_at (data node) q)"
    by (simp only: p read16_slice [OF fit])
  finally show ?thesis by (simp only: q_def)
qed

lemma setOffset_in_range:
  assumes "numKeys node = Inr n" "1 \<le> idx" "idx \<le> n"
    and "4 + 10 * unat n \<le> length (data node)" "4 + 10 * unat n < 65536"
  shows "setOffset node idx v = Inr (node\<lparr>data := put16_at (data node) (4 + 8 * unat n + 2 * (unat idx - 1)) v\<rparr>)"
proof -
  define pos where "pos = Header + n * 8 + (idx - 1) * 2"
  define q where "q = 4 + 8 * unat n + 2 * (unat idx - 1)"
  have i1: "1 \<le> unat idx" using assms(2) by (simp add: word_le_nat_alt)
  have i2: "unat idx \<le> unat n" using assms(3) by (simp add: word_le_nat_alt)
  have fit: "q + 2 \<le> length (data node)"
    using i1 i2 assms(4) by (simp add: q_def)
  have p: "unat pos = q" "unat (pos + 2) = q + 2"
    using unat_offset_slot [OF assms(2,3,5)] by (simp_all only: pos_def q_def)
  have "setOffset node idx v =
          pbind (slice (data node) (unat pos) (unat (pos + 2))) (\<lambda>s.
          pbind (PutUint16 s v) (\<lambda>s'.
          Inr (node\<lparr>data := slice_store (data node) (unat pos) s'\<rparr>)))"
    by (simp only: setOffset_def offsetPos_in_range [OF assms(1-3)] pbind.simps pos_def)
  also have "\<dots> = Inr (node\<lparr>data := put16_at (data node) q v\<rparr>)"
    by (simp only: p write16_slice [OF fit, where f = "\<lambda>d. node\<lparr>data := d\<rparr>"])
  finally show ?thesis by (simp only: q_def)
qed

lemma getOffset_out_of_range:
  assumes "numKeys node = Inr n" "\<not> (1 \<le> idx \<and> idx \<le> n)"
  shows "getOffset node idx = Inl (AssertPanic ''assertion failed: offsetPos: idx out of range'')"
  by (simp add: getOffset_def offsetPos_out_of_range [OF assms])

lemma setOffset_out_of_range:
  assumes "numKeys node = Inr n" "\<not> (1 \<le> idx \<and> idx \<le> n)"
  shows "setOffset node idx v = Inl (AssertPanic ''assertion failed: offsetPos: idx out of range'')"
  by (simp add: setOffset_def offsetPos_out_of_range [OF assms])

lemma kvPos_in_range:
  assumes "numKeys node = Inr n" "1 \<le> idx" "idx \<le> n"
    and "4 + 10 * unat n \<le> length (data node)" "4 + 10 * unat n < 65536"
  shows "kvPos node idx =
         Inr (Header + 8 * n + 2 * n + le16_at (data node) (4 + 8 * unat n + 2 * (unat idx - 1)))"
  by (simp add: kvPos_def assms(1,3) assert_def getOffset_in_range [OF assms])

lemma kvPos_zero:
  assumes "numKeys node = Inr n"
  shows "kvPos node 0 = Inl (AssertPanic ''assertion failed: offsetPos: idx out of range'')"
  by (simp add: kvPos_def assms assert_def getOffset_def offsetPos_zero)

lemma kvPos_zero_never_returns: "kvPos node 0 \<noteq> Inr pos"
proof (cases "numKeys node")
  case (Inl e)
  then show ?thesis by (simp add: kvPos_def)
next
  case (Inr n)
  then show ?thesis by (simp add: kvPos_zero)
qed

lemma numBytes_kvPos:
  assumes "numKeys node = Inr n"
  shows "numBytes node = kvPos node n"
  by (simp add: numBytes_def assms)


section \<open>The example pages\<close>

lemma numKeys_leaf_one: "numKeys leaf_one = Inr 1"
  by (simp add: numKeys_def leaf_one_def slice_def Uint16_def)

lemma numKeys_node_two: "numKeys node_two = Inr 2"
  by (simp add: numKeys_def node_two_def slice_def Uint16_def)

lemma length_leaf_one: "length (data leaf_one) = 4096"
  by (simp add: leaf_one_def hello_def world_def)

lemma length_node_two: "length (data node_two) = 4096"
  by (simp add: node_two_def hello_def world_def)

lemma getOffset_node_two: "getOffset node_two 1 = Inr 9" "getOffset node_two 2 = Inr 18"
proof -
  have v: "le16_at (data node_two) 20 = 9" "le16_at (data node_two) 22 = 18"
    by (simp_all add: le16_at_def node_two_def)
  from v getOffset_in_range [OF numKeys_node_two, of 1] show "getOffset node_two 1 = Inr 9"
    by (simp add: length_node_two)
  from v getOffset_in_range [OF numKeys_node_two, of 2] show "getOffset node_two 2 = Inr 18"
    by (simp add: length_node_two)
qed


section \<open>The header\<close>

text \<open>
  Claim C7.  The header is four bytes, little-endian: \<open>bType\<close> reads bytes 0 and 1,
  \<open>numKeys\<close> reads bytes 2 and 3, each as low byte plus 256 times high byte, and
  \<open>setHeader\<close> writes the low and the high byte of the kind at bytes 0 and 1 and
  those of the key count at bytes 2 and 3, leaving the rest of the buffer as it was;
  reading after writing gives back both fields.  The kind tag of an internal node is 0,
  that of a leaf is 1.  The buffer must hold the four header bytes.
\<close>

theorem header_layout:
  assumes "4 \<le> length (data node)"
  shows "bType node = Inr (le16_at (data node) 0)
       \<and> unat (le16_at (data node) 0) = unat (data node ! 0) + 256 * unat (data node ! 1)
       \<and> numKeys node = Inr (le16_at (data node) 2)
       \<and> unat (le16_at (data node) 2) = unat (data node ! 2) + 256 * unat (data node ! 3)
       \<and> setHeader node bt nk =
           Inr (node\<lparr>data := [ucast bt, ucast (drop_bit 8 bt), ucast nk, ucast (drop_bit 8 nk)]
                                  @ drop 4 (data node)\<rparr>)
       \<and> unat (ucast bt :: byte) = unat bt mod 256
       \<and> unat (ucast (drop_bit 8 bt) :: byte) = unat bt div 256
       \<and> unat (ucast nk :: byte) = unat nk mod 256
       \<and> unat (ucast (drop_bit 8 nk) :: byte) = unat nk div 256
       \<and> pbind (setHeader node bt nk) bType = Inr bt
       \<and> pbind (setHeader node bt nk) numKeys = Inr nk
       \<and> Header = 4 \<and> BNode_Node = 0 \<and> BNode_Leaf = 1"
proof -
  let ?d = "put16_at (put16_at (data node) 0 bt) 2 nk"
  have len: "length ?d = length (data node)" by (simp add: length_put16_at)
  have "le16_at ?d 0 = le16_at (put16_at (data node) 0 bt) 0"
    by (simp add: le16_at_put16_at_other)
  then have t: "le16_at ?d 0 = bt"
    using assms by (simp add: le16_at_put16_at)
  have n: "le16_at ?d 2 = nk"
    using assms by (simp add: le16_at_put16_at length_put16_at)
  have rt: "pbind (setHeader node bt nk) bType = Inr bt"
    using assms by (simp add: setHeader_write bType_read len t)
  have rn: "pbind (setHeader node bt nk) numKeys = Inr nk"
    using assms by (simp add: setHeader_write numKeys_read len n)
  have c1: "bType node = Inr (le16_at (data node) 0)" using assms by (simp add: bType_read)
  have c2: "numKeys node = Inr (le16_at (data node) 2)" using assms by (simp add: numKeys_read)
  have c3: "unat (le16_at (data node) 0) = unat (data node ! 0) + 256 * unat (data node ! 1)"
    by (simp add: unat_le16_at)
  have c4: "unat (le16_at (data node) 2) = unat (data node ! 2) + 256 * unat (data node ! 3)"
    by (simp add: unat_le16_at)
  have c5: "Header = 4 \<and> BNode_Node = 0 \<and> BNode_Leaf = 1"
    by (simp add: Header_def BNode_Node_def BNode_Leaf_def)
  from c1 c2 c3 c4 c5 setHeader_data [OF assms, of bt nk] rt rn
    low_byte [of bt] high_byte [of bt] low_byte [of nk] high_byte [of nk]
  show ?thesis by blast
qed

theorem header_layout_witness:
  "4 \<le> length (data leaf_one) \<and> bType leaf_one = Inr BNode_Leaf \<and> numKeys leaf_one = Inr 1
   \<and> pbind (setHeader leaf_one BNode_Node 2) bType = Inr BNode_Node
   \<and> pbind (setHeader leaf_one BNode_Node 2) numKeys = Inr 2"
proof -
  have h: "4 \<le> length (data leaf_one)" by (simp add: length_leaf_one)
  have v: "le16_at (data leaf_one) 0 = BNode_Leaf" "le16_at (data leaf_one) 2 = 1"
    by (simp_all add: le16_at_def leaf_one_def BNode_Leaf_def)
  from header_layout [OF h, of BNode_Node 2]
  have "bType leaf_one = Inr (le16_at (data leaf_one) 0)"
    and "numKeys leaf_one = Inr (le16_at (data leaf_one) 2)"
    and "pbind (setHeader leaf_one BNode_Node 2) bType = Inr BNode_Node"
    and "pbind (setHeader leaf_one BNode_Node 2) numKeys = Inr 2"
    by blast+
  with h v show ?thesis by simp
qed


section \<open>The offset array\<close>

text \<open>
  Claim C9.  On a buffer shorter than \<open>2 ^ 16\<close> bytes that holds the header, the
  \<open>keyCount\<close> pointer slots and the \<open>keyCount\<close> offset slots, \<open>getOffset\<close> and
  \<open>setOffset\<close> accept exactly the indices 1 to \<open>keyCount\<close>; for such an index \<open>i\<close>
  they read and write the little-endian 16-bit value at byte position
  \<open>4 + 8 * keyCount + 2 * (i - 1)\<close>, right after the pointer array, and for any other
  index they fail the assertion of \<open>offsetPos\<close>.
\<close>

theorem offset_slots:
  assumes "numKeys node = Inr n"
    and "4 + 10 * unat n \<le> length (data node)" "length (data node) < 65536"
  shows "getOffset node i =
           (if 1 \<le> i \<and> i \<le> n
            then Inr (le16_at (data node) (4 + 8 * unat n + 2 * (unat i - 1)))
            else Inl (AssertPanic ''assertion failed: offsetPos: idx out of range''))
       \<and> setOffset node i v =
           (if 1 \<le> i \<and> i \<le> n
            then Inr (node\<lparr>data := put16_at (data node) (4 + 8 * unat n + 2 * (unat i - 1)) v\<rparr>)
            else Inl (AssertPanic ''assertion failed: offsetPos: idx out of range''))
       \<and> unat (le16_at (data node) (4 + 8 * unat n + 2 * (unat i - 1)))
           = unat (data node ! (4 + 8 * unat n + 2 * (unat i - 1)))
             + 256 * unat (data node ! (4 + 8 * unat n + 2 * (unat i - 1) + 1))
       \<and> put16_at (data node) (4 + 8 * unat n + 2 * (unat i - 1)) v
           = (data node)[4 + 8 * unat n + 2 * (unat i - 1) := ucast v,
                         4 + 8 * unat n + 2 * (unat i - 1) + 1 := ucast (drop_bit 8 v)]"
proof (cases "1 \<le> i \<and> i \<le> n")
  case True
  have b: "4 + 10 * unat n < 65536" using assms(2,3) by simp
  from True show ?thesis
    by (simp add: getOffset_in_range [OF assms(1) _ _ assms(2) b]
        setOffset_in_range [OF assms(1) _ _ assms(2) b] unat_le16_at put16_at_def)
next
  case False
  then show ?thesis
    by (simp add: getOffset_out_of_range [OF assms(1)] setOffset_out_of_range [OF assms(1)]
        unat_le16_at put16_at_def)
qed

theorem offset_slots_witness:
  "numKeys node_two = Inr 2 \<and> 4 + 10 * unat (2 :: uint16) \<le> length (data node_two)
   \<and> length (data node_two) < 65536
   \<and> getOffset node_two 1 = Inr 9 \<and> getOffset node_two 2 = Inr 18
   \<and> getOffset node_two 0 = Inl (AssertPanic ''assertion failed: offsetPos: idx out of range'')
   \<and> getOffset node_two 3 = Inl (AssertPanic ''assertion failed: offsetPos: idx out of range'')"
proof -
  have l: "4 + 10 * unat (2 :: uint16) \<le> length (data node_two)" "length (data node_two) < 65536"
    by (simp_all add: length_node_two)
  have v: "le16_at (data node_two) 20 = 9" "le16_at (data node_two) 22 = 18"
    by (simp_all add: le16_at_def node_two_def)
  from offset_slots [OF numKeys_node_two l, of 0] offset_slots [OF numKeys_node_two l, of 1]
    offset_slots [OF numKeys_node_two l, of 2] offset_slots [OF numKeys_node_two l, of 3] v l
  show ?thesis by (simp add: numKeys_node_two)
qed


section \<open>Node sizes against the page size\<close>

text \<open>
  Claim C10.  A node with one key, whose record header at byte 14 gives a key length
  of at most \<open>BTreeMaxKeySize\<close> and a value length of at most \<open>BTreeMaxValSize\<close> and
  whose offset slot holds the end of that record, has
  \<open>numBytes = 4 + 8 + 2 + 4 + klen + vlen\<close>, which is at most 4018 and so at most
  \<open>BTreePageSize\<close>.
\<close>

theorem single_max_record_fits:
  assumes "numKeys node = Inr 1"
    and "le16_at (data node) 14 = klen" "le16_at (data node) 16 = vlen"
    and "getOffset node 1 = Inr (4 + klen + vlen)"
    and "unat klen \<le> BTreeMaxKeySize" "unat vlen \<le> BTreeMaxValSize"
  shows "numBytes node = Inr (18 + klen + vlen)
       \<and> unat (18 + klen + vlen) = 4 + 8 + 2 + 4 + unat klen + unat vlen
       \<and> unat (18 + klen + vlen) \<le> 4018 \<and> 4018 \<le> BTreePageSize"
proof -
  have k: "unat klen \<le> 1000" and v: "unat vlen \<le> 3000"
    using assms(5,6) by (simp_all add: BTreeMaxKeySize_def BTreeMaxValSize_def)
  have nb: "numBytes node = Inr (18 + klen + vlen)"
    by (simp add: numBytes_def kvPos_def assms(1,4) assert_def Header_def)
  have u: "unat (18 + klen + vlen) = 18 + unat klen + unat vlen"
    using k v by (simp add: unat_word_ariths)
  show ?thesis using nb u k v by (simp add: BTreePageSize_def)
qed

theorem single_max_record_fits_witness:
  "numKeys leaf_max = Inr 1
   \<and> le16_at (data leaf_max) 14 = 1000 \<and> le16_at (data leaf_max) 16 = 3000
   \<and> getOffset leaf_max 1 = Inr (4 + 1000 + 3000)
   \<and> unat (1000 :: uint16) \<le> BTreeMaxKeySize \<and> unat (3000 :: uint16) \<le> BTreeMaxValSize
   \<and> length (data leaf_max) = BTreePageSize
   \<and> numBytes leaf_max = Inr 4018"
proof -
  have n: "numKeys leaf_max = Inr 1"
    by (simp add: numKeys_def leaf_max_def slice_def Uint16_def)
  have l: "length (data leaf_max) = BTreePageSize"
    by (simp add: leaf_max_def BTreePageSize_def)
  have r: "le16_at (data leaf_max) 14 = 1000" "le16_at (data leaf_max) 16 = 3000"
    by (simp_all add: le16_at_def leaf_max_def nth_append)
  have "le16_at (data leaf_max) 12 = 4004"
    by (simp add: le16_at_def leaf_max_def nth_append)
  with getOffset_in_range [OF n, of 1] l have o: "getOffset leaf_max 1 = Inr (4 + 1000 + 3000)"
    by (simp add: BTreePageSize_def)
  have b: "unat (1000 :: uint16) \<le> BTreeMaxKeySize" "unat (3000 :: uint16) \<le> BTreeMaxValSize"
    by (simp_all add: BTreeMaxKeySize_def BTreeMaxValSize_def)
  from single_max_record_fits [OF n r o b] n r o b l
  show ?thesis by simp
qed


text \<open>
  Claim C3, as stated, fails: the buffer \<open>two_max\<close> holds two records of 1000 key
  bytes and 3000 value bytes, and its encoded size is 8032 bytes, more than
  \<open>BTreePageSize\<close>.
\<close>

theorem two_max_records_exceed_page:
  "numKeys two_max = Inr 2
   \<and> le16_at (data two_max) 24 = 1000 \<and> le16_at (data two_max) 26 = 3000
   \<and> getOffset two_max 1 = Inr 4004
   \<and> le16_at (data two_max) 4028 = 1000 \<and> le16_at (data two_max) 4030 = 3000
   \<and> getOffset two_max 2 = Inr 8008
   \<and> getKey two_max 1 = Inr (replicate 1000 0) \<and> getVal two_max 1 = Inr (replicate 3000 0)
   \<and> numBytes two_max = Inr 8032
   \<and> \<not> unat (8032 :: uint16) \<le> BTreePageSize"
  by (simp add: numBytes_def kvPos_def getKey_def getVal_def numKeys_def getOffset_def
      offsetPos_def assert_def two_max_def slice_def Uint16_def Header_def le16_at_def
      BTreePageSize_def nth_append)


text \<open>
  Claim C3, amended.  A node with two keys, whose records are within the maximum key
  and value lengths and whose offset slots hold the ends of the two records, has
  \<open>numBytes = 4 + 2 * 8 + 2 * 2 + (4 + k1 + v1) + (4 + k2 + v2)\<close>.  That is at most
  8032, and it is at most \<open>BTreePageSize\<close> exactly when the key and value bytes of the
  two records total at most 4064.
\<close>

theorem two_records_size:
  assumes "numKeys node = Inr 2"
    and "le16_at (data node) 24 = k1" "le16_at (data node) 26 = v1"
    and "getOffset node 1 = Inr (4 + k1 + v1)"
    and "le16_at (data node) (28 + unat k1 + unat v1) = k2"
    and "le16_at (data node) (30 + unat k1 + unat v1) = v2"
    and "getOffset node 2 = Inr (4 + k1 + v1 + (4 + k2 + v2))"
    and "unat k1 \<le> BTreeMaxKeySize" "unat v1 \<le> BTreeMaxValSize"
    and "unat k2 \<le> BTreeMaxKeySize" "unat v2 \<le> BTreeMaxValSize"
  shows "numBytes node = Inr (32 + k1 + v1 + k2 + v2)
       \<and> unat (32 + k1 + v1 + k2 + v2) = 4 + 2 * 8 + 2 * 2 + (4 + unat k1 + unat v1) + (4 + unat k2 + unat v2)
       \<and> unat (32 + k1 + v1 + k2 + v2) \<le> 8032
       \<and> (unat (32 + k1 + v1 + k2 + v2) \<le> BTreePageSize
            \<longleftrightarrow> unat k1 + unat v1 + unat k2 + unat v2 \<le> 4064)"
proof -
  have b: "unat k1 \<le> 1000" "unat v1 \<le> 3000" "unat k2 \<le> 1000" "unat v2 \<le> 3000"
    using assms(8-11) by (simp_all add: BTreeMaxKeySize_def BTreeMaxValSize_def)
  have nb: "numBytes node = Inr (32 + k1 + v1 + k2 + v2)"
    by (simp add: numBytes_def kvPos_def assms(1,7) assert_def Header_def)
  have u: "unat (32 + k1 + v1 + k2 + v2) = 32 + unat k1 + unat v1 + unat k2 + unat v2"
    using b by (simp add: unat_word_ariths)
  show ?thesis using nb u b by (auto simp: BTreePageSize_def)
qed

theorem two_records_size_witness:
  "numKeys node_two = Inr 2 \<and> le16_at (data node_two) 24 = 5 \<and> le16_at (data node_two) 26 = 0
   \<and> getOffset node_two 1 = Inr (4 + 5 + 0)
   \<and> le16_at (data node_two) (28 + unat (5 :: uint16) + unat (0 :: uint16)) = 5
   \<and> le16_at (data node_two) (30 + unat (5 :: uint16) + unat (0 :: uint16)) = 0
   \<and> getOffset node_two 2 = Inr (4 + 5 + 0 + (4 + 5 + 0))
   \<and> numBytes node_two = Inr 42 \<and> unat (42 :: uint16) \<le> BTreePageSize"
proof -
  have r: "le16_at (data node_two) 24 = 5" "le16_at (data node_two) 26 = 0"
    by (simp_all add: le16_at_def node_two_def hello_def)
  have o1: "getOffset node_two 1 = Inr (4 + 5 + 0)" by (simp add: getOffset_node_two)
  have s: "le16_at (data node_two) (28 + unat (5 :: uint16) + unat (0 :: uint16)) = 5"
    "le16_at (data node_two) (30 + unat (5 :: uint16) + unat (0 :: uint16)) = 0"
    by (simp_all add: le16_at_def node_two_def hello_def world_def)
  have o2: "getOffset node_two 2 = Inr (4 + 5 + 0 + (4 + 5 + 0))" by (simp add: getOffset_node_two)
  have b: "unat (5 :: uint16) \<le> BTreeMaxKeySize" "unat (0 :: uint16) \<le> BTreeMaxValSize"
    by (simp_all add: BTreeMaxKeySize_def BTreeMaxValSize_def)
  from two_records_size [OF numKeys_node_two r o1 s o2 b b] r o1 s o2 numKeys_node_two
  show ?thesis by (simp add: BTreePageSize_def)
qed


section \<open>Insert with an oversize key or value\<close>

text \<open>
  Claim C5.  \<open>Insert\<close> with a key longer than \<open>BTreeMaxKeySize\<close> or a value longer
  than \<open>BTreeMaxValSize\<close> reports \<open>Oversize\<close> and returns the tree as it was: the
  root, the live pages and the record of \<open>new\<close> and \<open>del\<close> calls are unchanged,
  whatever the rest of the insertion would do.
\<close>

theorem Insert_oversize_unchanged:
  assumes "length key > BTreeMaxKeySize \<or> length val > BTreeMaxValSize"
  shows "Insert descend tree key val = (Inl Oversize, tree)
       \<and> root (snd (Insert descend tree key val)) = root tree
       \<and> pages (snd (Insert descend tree key val)) = pages tree
       \<and> calls (snd (Insert descend tree key val)) = calls tree"
  using assms by (auto simp: Insert_def)

theorem Insert_oversize_unchanged_witness:
  "(length (replicate 1001 (0 :: byte)) > BTreeMaxKeySize \<or> length ([] :: byte list) > BTreeMaxValSize)
   \<and> Insert (\<lambda>t k v. t\<lparr>root := 1, pages := (pages t)(1 \<mapsto> \<lparr>data = k @ v\<rparr>),
                           calls := calls t @ [New \<lparr>data = k @ v\<rparr>]\<rparr>)
         \<lparr>root = 0, pages = Map.empty, calls = []\<rparr> (replicate 1001 0) []
       = (Inl Oversize, \<lparr>root = 0, pages = Map.empty, calls = []\<rparr>)"
proof -
  have h: "length (replicate 1001 (0 :: byte)) > BTreeMaxKeySize \<or> length ([] :: byte list) > BTreeMaxValSize"
    by (simp add: BTreeMaxKeySize_def)
  from Insert_oversize_unchanged [OF h] h show ?thesis by simp
qed

section \<open>Child pointers\<close>

text \<open>
  \<open>getPtr\<close> and \<open>setPtr\<close> compute the position \<open>4 + 8 * i\<close> and never read the key
  count: they succeed whenever the eight bytes lie in the buffer.
\<close>

lemma unat_ptr_slot:
  fixes i :: uint16
  assumes "4 + 8 * unat i + 8 < 65536"
  shows "unat (Header + i * 8) = 4 + 8 * unat i"
    and "unat (Header + i * 8 + 8) = 4 + 8 * unat i + 8"
  using assms by (simp_all add: Header_def unat_word_ariths)

lemma getPtr_unchecked:
  assumes "4 + 8 * unat i + 8 \<le> length (data node)" "length (data node) < 65536"
  shows "getPtr node i = Inr (le64_at (data node) (4 + 8 * unat i))"
proof -
  define pos where "pos = Header + i * 8"
  have b: "4 + 8 * unat i + 8 < 65536" using assms by simp
  have p: "unat pos = 4 + 8 * unat i" "unat (pos + 8) = 4 + 8 * unat i + 8"
    using unat_ptr_slot [OF b] by (simp_all only: pos_def)
  have "getPtr node i = pbind (slice (data node) (unat pos) (unat (pos + 8))) Uint64"
    by (simp only: getPtr_def Let_def pos_def)
  also have "\<dots> = Inr (le64_at (data node) (4 + 8 * unat i))"
    by (simp only: p read64_slice [OF assms(1)])
  finally show ?thesis .
qed

lemma setPtr_unchecked:
  assumes "4 + 8 * unat i + 8 \<le> length (data node)" "length (data node) < 65536"
  shows "setPtr node i ptr = Inr (node\<lparr>data := put64_at (data node) (4 + 8 * unat i) ptr\<rparr>)"
proof -
  define pos where "pos = Header + i * 8"
  have b: "4 + 8 * unat i + 8 < 65536" using assms by simp
  have p: "unat pos = 4 + 8 * unat i" "unat (pos + 8) = 4 + 8 * unat i + 8"
    using unat_ptr_slot [OF b] by (simp_all only: pos_def)
  have "setPtr node i ptr =
          pbind (slice (data node) (unat pos) (unat (pos + 8))) (\<lambda>s.
          pbind (PutUint64 s ptr) (\<lambda>s'.
          Inr (node\<lparr>data := slice_store (data node) (unat pos) s'\<rparr>)))"
    by (simp only: setPtr_def Let_def pos_def)
  also have "\<dots> = Inr (node\<lparr>data := put64_at (data node) (4 + 8 * unat i) ptr\<rparr>)"
    by (simp only: p write64_slice [OF assms(1), where f = "\<lambda>d. node\<lparr>data := d\<rparr>"])
  finally show ?thesis .
qed

lemma bit_byte_piece:
  "bit (push_bit k (ucast (ucast (drop_bit k (v::uint64)) :: byte)) :: uint64) n
     \<longleftrightarrow> k \<le> n \<and> n < k + 8 \<and> n < 64 \<and> bit v n"
  by (auto simp: bit_simps)

lemma bit_byte_piece0:
  "bit (ucast (ucast (v::uint64) :: byte) :: uint64) n \<longleftrightarrow> n < 8 \<and> bit v n"
  by (auto simp: bit_simps dest: bit_imp_le_length)

lemma le64_roundtrip:
  "(ucast (ucast (v::uint64) :: byte) :: uint64)
     OR push_bit 8 (ucast (ucast (drop_bit 8 v) :: byte))
     OR push_bit 16 (ucast (ucast (drop_bit 16 v) :: byte))
     OR push_bit 24 (ucast (ucast (drop_bit 24 v) :: byte))
     OR push_bit 32 (ucast (ucast (drop_bit 32 v) :: byte))
     OR push_bit 40 (ucast (ucast (drop_bit 40 v) :: byte))
     OR push_bit 48 (ucast (ucast (drop_bit 48 v) :: byte))
     OR push_bit 56 (ucast (ucast (drop_bit 56 v) :: byte)) = v"
proof (rule bit_word_eqI)
  fix n :: nat
  assume "n < LENGTH(64)"
  then have n: "n < 64" by simp
  show "bit (ucast (ucast v :: byte) OR push_bit 8 (ucast (ucast (drop_bit 8 v) :: byte))
     OR push_bit 16 (ucast (ucast (drop_bit 16 v) :: byte))
     OR push_bit 24 (ucast (ucast (drop_bit 24 v) :: byte))
     OR push_bit 32 (ucast (ucast (drop_bit 32 v) :: byte))
     OR push_bit 40 (ucast (ucast (drop_bit 40 v) :: byte))
     OR push_bit 48 (ucast (ucast (drop_bit 48 v) :: byte))
     OR push_bit 56 (ucast (ucast (drop_bit 56 v) :: byte)) :: uint64) n = bit v n"
  proof (cases "bit v n")
    case True
    with n show ?thesis
      by (simp only: bit_or_iff bit_byte_piece bit_byte_piece0) arith
  next
    case False
    then show ?thesis
      by (simp only: bit_or_iff bit_byte_piece bit_byte_piece0) simp
  qed
qed

lemma le64_at_put64_at:
  assumes "p + 8 \<le> length b"
  shows "le64_at (put64_at b p v) p = v"
  using assms by (simp add: le64_at_def put64_at_def le64_roundtrip)

lemma getPtr_setPtr:
  assumes "4 + 8 * unat i + 8 \<le> length (data node)" "length (data node) < 65536"
  shows "pbind (setPtr node i ptr) (\<lambda>node'. getPtr node' i) = Inr ptr"
proof -
  let ?node' = "node\<lparr>data := put64_at (data node) (4 + 8 * unat i) ptr\<rparr>"
  have l: "4 + 8 * unat i + 8 \<le> length (data ?node')" "length (data ?node') < 65536"
    using assms by (simp_all add: length_put64_at)
  show ?thesis
    using assms(1)
    by (simp add: setPtr_unchecked [OF assms] getPtr_unchecked [OF l] le64_at_put64_at)
qed


section \<open>Indices beyond the key count\<close>

text \<open>
  The accessors that assert on their index fail for every index beyond the key count.
\<close>

lemma beyond_keyCount_asserted:
  assumes "numKeys node = Inr n" "n < idx"
  shows "getOffset node idx = Inl (AssertPanic ''assertion failed: offsetPos: idx out of range'')"
    and "setOffset node idx v = Inl (AssertPanic ''assertion failed: offsetPos: idx out of range'')"
    and "kvPos node idx = Inl (AssertPanic ''assertion failed: kvPos: idx out of range'')"
    and "getKey node idx = Inl (AssertPanic ''assertion failed: getKey: idx out of range'')"
    and "getVal node idx = Inl (AssertPanic ''assertion failed: getVal: idx out of range'')"
proof -
  have n: "\<not> idx \<le> n" using assms(2) by simp
  then have "\<not> (1 \<le> idx \<and> idx \<le> n)" by simp
  from getOffset_out_of_range [OF assms(1) this] setOffset_out_of_range [OF assms(1) this]
  show "getOffset node idx = Inl (AssertPanic ''assertion failed: offsetPos: idx out of range'')"
    and "setOffset node idx v = Inl (AssertPanic ''assertion failed: offsetPos: idx out of range'')"
    by simp_all
  show "kvPos node idx = Inl (AssertPanic ''assertion failed: kvPos: idx out of range'')"
    using n by (simp add: kvPos_def assms(1) assert_def)
  show "getKey node idx = Inl (AssertPanic ''assertion failed: getKey: idx out of range'')"
    using n by (simp add: getKey_def assms(1) assert_def)
  show "getVal node idx = Inl (AssertPanic ''assertion failed: getVal: idx out of range'')"
    using n by (simp add: getVal_def assms(1) assert_def)
qed


text \<open>
  Claim C2 fails for \<open>getPtr\<close> and \<open>setPtr\<close>.  On the page \<open>leaf_one\<close>, whose key
  count is 1, \<open>getPtr\<close> with index 2 returns the bytes 20 to 27, which are the end
  of the key and the value of the record, and \<open>setPtr\<close> with index 2 overwrites them;
  the other five accessors fail their assertion for index 2.
\<close>

theorem pointer_index_unchecked:
  "numKeys leaf_one = Inr 1
   \<and> getPtr leaf_one 2 = Inr 7236284524348271724
   \<and> setPtr leaf_one 2 0 =
       Inr \<lparr>data = [1, 0, 1, 0] @ [0, 0, 0, 0, 0, 0, 0, 0] @ [14, 0] @ [5, 0, 5, 0]
                   @ [104, 101, 0, 0, 0] @ [0, 0, 0, 0, 0] @ replicate 4068 0\<rparr>
   \<and> getOffset leaf_one 2 = Inl (AssertPanic ''assertion failed: offsetPos: idx out of range'')
   \<and> setOffset leaf_one 2 0 = Inl (AssertPanic ''assertion failed: offsetPos: idx out of range'')
   \<and> kvPos leaf_one 2 = Inl (AssertPanic ''assertion failed: kvPos: idx out of range'')
   \<and> getKey leaf_one 2 = Inl (AssertPanic ''assertion failed: getKey: idx out of range'')
   \<and> getVal leaf_one 2 = Inl (AssertPanic ''assertion failed: getVal: idx out of range'')"
proof -
  have b: "(1 :: uint16) < 2" by simp
  have g: "getPtr leaf_one 2 = Inr 7236284524348271724"
    by (simp add: getPtr_def leaf_one_def hello_def world_def Header_def slice_def Uint64_def)
  have s: "setPtr leaf_one 2 0 =
       Inr \<lparr>data = [1, 0, 1, 0] @ [0, 0, 0, 0, 0, 0, 0, 0] @ [14, 0] @ [5, 0, 5, 0]
                   @ [104, 101, 0, 0, 0] @ [0, 0, 0, 0, 0] @ replicate 4068 0\<rparr>"
    by (simp add: setPtr_def leaf_one_def hello_def world_def Header_def slice_def
        PutUint64_def slice_store_def)
  from numKeys_leaf_one g s beyond_keyCount_asserted [OF numKeys_leaf_one b]
  show ?thesis by simp
qed


section \<open>Records\<close>

text \<open>
  For an index from 1 to the key count the record position is the end of the header and
  of the two arrays plus the value of the offset slot of that index, and \<open>getKey\<close> and
  \<open>getVal\<close> return the key and the value bytes of the record that starts there.
\<close>

lemma getKey_getVal_in_range:
  assumes nk: "numKeys node = Inr n" and i: "1 \<le> idx" "idx \<le> n"
    and fit: "4 + 10 * unat n \<le> length (data node)" and len: "length (data node) < 65536"
    and pos: "pos = 4 + 10 * unat n + unat (le16_at (data node) (4 + 8 * unat n + 2 * (unat idx - 1)))"
    and klen: "klen = unat (le16_at (data node) pos)"
    and vlen: "vlen = unat (le16_at (data node) (pos + 2))"
    and rec: "pos + 4 + klen + vlen \<le> length (data node)"
  shows "kvPos node idx = Inr (of_nat pos)"
    and "getKey node idx = Inr (take klen (drop (pos + 4) (data node)))"
    and "getVal node idx = Inr (take vlen (drop (pos + 4 + klen) (data node)))"
proof -
  define off where "off = le16_at (data node) (4 + 8 * unat n + 2 * (unat idx - 1))"
  define w where "w = Header + 8 * n + 2 * n + off"
  define kw where "kw = le16_at (data node) pos"
  define vw where "vw = le16_at (data node) (pos + 2)"
  have b: "4 + 10 * unat n < 65536" using fit len by simp
  have kv: "kvPos node idx = Inr w"
    unfolding w_def off_def by (rule kvPos_in_range [OF nk i fit b])
  have small: "pos + 4 + klen + vlen < 65536" using rec len by simp
  have uw: "unat w = pos"
    using small by (simp add: w_def Header_def unat_word_ariths pos off_def)
  have "of_nat (unat w) = w" by simp
  then have wp: "w = of_nat pos" by (simp only: uw)
  have k: "unat kw = klen" and v: "unat vw = vlen" by (simp_all add: kw_def vw_def klen vlen)
  have u2: "unat (w + 2) = pos + 2" and u4: "unat (w + 4) = pos + 4"
    using small uw by (simp_all add: unat_word_ariths)
  have u4k: "unat (w + 4 + kw) = pos + 4 + klen"
    using small uw k by (simp add: unat_word_ariths)
  have u4kv: "unat (w + 4 + kw + vw) = pos + 4 + klen + vlen"
    using small uw k v by (simp add: unat_word_ariths)
  have r1: "pbind (slice (data node) pos (pos + 2)) (\<lambda>s. pbind (Uint16 s) k') = k' kw" for k' :: "uint16 \<Rightarrow> panic + 'x"
    unfolding kw_def by (rule read16_bind) (use rec in simp_all)
  have r2: "pbind (slice (data node) (pos + 2) (pos + 4)) (\<lambda>s. pbind (Uint16 s) k') = k' vw" for k' :: "uint16 \<Rightarrow> panic + 'x"
    unfolding vw_def by (rule read16_bind) (use rec in simp_all)
  have le: "idx \<le> n" by (rule i(2))
  show "kvPos node idx = Inr (of_nat pos)" using kv wp by simp
  have "getKey node idx =
          pbind (slice (data node) (unat w) (unat (w + 2))) (\<lambda>s. pbind (Uint16 s) (\<lambda>klen.
            slice (data node) (unat (w + 4)) (unat (w + 4 + klen))))"
    by (simp only: getKey_def nk pbind.simps assert_def le kv simp_thms if_False)
  also have "\<dots> = slice (data node) (pos + 4) (pos + 4 + klen)"
    by (simp only: uw u2 u4 r1 u4k)
  finally show "getKey node idx = Inr (take klen (drop (pos + 4) (data node)))"
    using rec by (simp add: slice_def)
  have "getVal node idx =
          pbind (slice (data node) (unat w) (unat (w + 2))) (\<lambda>s. pbind (Uint16 s) (\<lambda>klen.
          pbind (slice (data node) (unat (w + 2)) (unat (w + 4))) (\<lambda>t. pbind (Uint16 t) (\<lambda>vlen.
            slice (data node) (unat (w + 4 + klen)) (unat (w + 4 + klen + vlen))))))"
    by (simp only: getVal_def nk pbind.simps assert_def le kv simp_thms if_False)
  also have "\<dots> = slice (data node) (pos + 4 + klen) (pos + 4 + klen + vlen)"
    by (simp only: uw u2 u4 r1 r2 u4k u4kv)
  finally show "getVal node idx = Inr (take vlen (drop (pos + 4 + klen) (data node)))"
    using rec by (simp add: slice_def)
qed

lemma numKeys_put16_at:
  assumes "4 \<le> p"
  shows "le16_at (put16_at b p v) 2 = le16_at b 2"
  using assms by (simp add: le16_at_put16_at_other)

lemma getOffset_setOffset:
  assumes "numKeys node = Inr n" "1 \<le> idx" "idx \<le> n"
    and "4 + 10 * unat n \<le> length (data node)" "length (data node) < 65536"
  shows "pbind (setOffset node idx v) (\<lambda>node'. getOffset node' idx) = Inr v"
proof -
  define q where "q = 4 + 8 * unat n + 2 * (unat idx - 1)"
  let ?node' = "node\<lparr>data := put16_at (data node) q v\<rparr>"
  have b: "4 + 10 * unat n < 65536" using assms(4,5) by simp
  have i1: "1 \<le> unat idx" using assms(2) by (simp add: word_le_nat_alt)
  have i2: "unat idx \<le> unat n" using assms(3) by (simp add: word_le_nat_alt)
  have q: "q + 2 \<le> length (data node)" "4 \<le> q" using i1 i2 assms(4) by (simp_all add: q_def)
  have n4: "4 \<le> length (data node)" by (rule numKeys_Inr_length [OF assms(1)])
  have "numKeys node = Inr (le16_at (data node) 2)" by (rule numKeys_read [OF n4])
  with assms(1) have n: "le16_at (data node) 2 = n" by simp
  have nk': "numKeys ?node' = Inr n"
    using n4 q(2) by (simp add: numKeys_read length_put16_at numKeys_put16_at n)
  have l': "4 + 10 * unat n \<le> length (data ?node')" using assms(4) by (simp add: length_put16_at)
  have s: "setOffset node idx v = Inr ?node'"
    unfolding q_def by (rule setOffset_in_range [OF assms(1-4) b])
  have g: "getOffset ?node' idx = Inr (le16_at (data ?node') q)"
    unfolding q_def by (rule getOffset_in_range [OF nk' [unfolded q_def] assms(2,3) l' [unfolded q_def] b])
  show ?thesis using q(1) by (simp add: s g le16_at_put16_at)
qed


text \<open>
  For index 0 \<open>kvPos\<close> calls \<open>getOffset\<close> with 0, and the assertion of \<open>offsetPos\<close>
  wants an index of at least 1: on every node \<open>kvPos\<close>, \<open>getKey\<close> and \<open>getVal\<close> fail
  for index 0, and \<open>numBytes\<close> fails on a node without keys.
\<close>

lemma getKey_getVal_zero:
  assumes "numKeys node = Inr n"
  shows "getKey node 0 = Inl (AssertPanic ''assertion failed: offsetPos: idx out of range'')"
    and "getVal node 0 = Inl (AssertPanic ''assertion failed: offsetPos: idx out of range'')"
  by (simp_all add: getKey_def getVal_def assms assert_def kvPos_zero [OF assms])

lemma numBytes_zero_keys:
  assumes "numKeys node = Inr 0"
  shows "numBytes node = Inl (AssertPanic ''assertion failed: offsetPos: idx out of range'')"
  by (simp add: numBytes_kvPos [OF assms] kvPos_zero [OF assms])

lemma numKeys_empty_leaf: "numKeys empty_leaf = Inr 0"
  by (simp add: numKeys_def empty_leaf_def slice_def Uint16_def)


text \<open>
  Claim C1 fails at index 0.  On the page \<open>leaf_one\<close>, whose key count is 1, \<open>kvPos\<close>
  with index 0 fails the assertion of \<open>offsetPos\<close>, where the claim gives
  \<open>4 + 10 * 1 = 14\<close>; with index 1 it returns 28, the end of the one record.
\<close>

theorem kvPos_index_zero_panics:
  "numKeys leaf_one = Inr 1
   \<and> kvPos leaf_one 0 = Inl (AssertPanic ''assertion failed: offsetPos: idx out of range'')
   \<and> kvPos leaf_one 1 = Inr 28"
proof -
  have "le16_at (data leaf_one) 12 = 14" by (simp add: le16_at_def leaf_one_def)
  with kvPos_in_range [OF numKeys_leaf_one, of 1] have "kvPos leaf_one 1 = Inr 28"
    by (simp add: length_leaf_one Header_def)
  with numKeys_leaf_one kvPos_zero [OF numKeys_leaf_one] show ?thesis by simp
qed


text \<open>
  Claim C6 fails for a node without keys.  On the page \<open>empty_leaf\<close>, whose key count
  is 0, \<open>numBytes\<close> fails the assertion of \<open>offsetPos\<close>.
\<close>

theorem numBytes_empty_leaf_panics:
  "numKeys empty_leaf = Inr 0
   \<and> numBytes empty_leaf = Inl (AssertPanic ''assertion failed: offsetPos: idx out of range'')"
  using numKeys_empty_leaf numBytes_zero_keys [OF numKeys_empty_leaf] by simp


text \<open>
  Claim C8 fails at index 0.  The page \<open>leaf_one\<close> holds the record with the key
  \<open>hello\<close> and the value \<open>world\<close> at byte 14: the two lengths at bytes 14 and 16,
  the key at byte 18, the value at byte 23.  \<open>getKey\<close> and \<open>getVal\<close> with index 0
  fail the assertion of \<open>offsetPos\<close>.
\<close>

theorem first_record_unreadable:
  "numKeys leaf_one = Inr 1
   \<and> le16_at (data leaf_one) 14 = 5 \<and> le16_at (data leaf_one) 16 = 5
   \<and> take 5 (drop 18 (data leaf_one)) = hello \<and> take 5 (drop 23 (data leaf_one)) = world
   \<and> getKey leaf_one 0 = Inl (AssertPanic ''assertion failed: offsetPos: idx out of range'')
   \<and> getVal leaf_one 0 = Inl (AssertPanic ''assertion failed: offsetPos: idx out of range'')"
proof -
  have "le16_at (data leaf_one) 14 = 5" "le16_at (data leaf_one) 16 = 5"
    "take 5 (drop 18 (data leaf_one)) = hello" "take 5 (drop 23 (data leaf_one)) = world"
    by (simp_all add: le16_at_def leaf_one_def hello_def world_def)
  with numKeys_leaf_one getKey_getVal_zero [OF numKeys_leaf_one] show ?thesis by simp
qed


section \<open>Encoding a list of entries\<close>

text \<open>Each write changes only the bytes of its own range.\<close>

lemma length_slice_store:
  assumes "p + length s \<le> length b"
  shows "length (slice_store b p s) = length b"
  using assms by (simp add: slice_store_def)

lemma nth_put16_at_other:
  assumes "q < p \<or> p + 2 \<le> q"
  shows "put16_at b p v ! q = b ! q"
  using assms by (auto simp: put16_at_def)

lemma nth_put64_at_other:
  assumes "q < p \<or> p + 8 \<le> q"
  shows "put64_at b p v ! q = b ! q"
  using assms by (auto simp: put64_at_def)

lemma nth_slice_store_other:
  assumes "q < p \<or> p + length s \<le> q" "p + length s \<le> length b" "q < length b"
  shows "slice_store b p s ! q = b ! q"
proof (cases "q < p")
  case True
  then show ?thesis using assms(2) by (simp add: slice_store_def nth_append)
next
  case False
  with assms(1) have q: "p + length s \<le> q" by simp
  have lt: "length (take p b) = p" using assms(2) by simp
  have n1: "\<not> q < p" using q by arith
  have n2: "\<not> q - p < length s" using q by arith
  have "(take p b @ s @ drop (p + length s) b) ! q = drop (p + length s) b ! (q - p - length s)"
    by (simp only: nth_append lt n1 n2 if_False)
  also have "\<dots> = b ! q" using q assms(2,3) by simp
  finally show ?thesis by (simp add: slice_store_def)
qed

lemma take_drop_slice_store_same:
  assumes "p + length s \<le> length b"
  shows "take (length s) (drop p (slice_store b p s)) = s"
  using assms by (simp add: slice_store_def min_absorb2)

lemma le16_at_agree:
  assumes "\<And>k. k < 2 \<Longrightarrow> b' ! (p + k) = b ! (p + k)"
  shows "le16_at b' p = le16_at b p"
  using assms [of 0] assms [of 1] by (simp add: le16_at_def)

lemma le64_at_agree:
  assumes "\<And>k. k < 8 \<Longrightarrow> b' ! (p + k) = b ! (p + k)"
  shows "le64_at b' p = le64_at b p"
  using assms [of 0] assms [of 1] assms [of 2] assms [of 3] assms [of 4] assms [of 5]
    assms [of 6] assms [of 7]
  by (simp add: le64_at_def)

lemma take_drop_agree:
  assumes "\<And>k. k < n \<Longrightarrow> b' ! (p + k) = b ! (p + k)" "length b' = length b" "p + n \<le> length b"
  shows "take n (drop p b') = take n (drop p b)"
  using assms by (auto simp: list_eq_iff_nth_eq)

lemma unat_of_nat16:
  assumes "n < 65536"
  shows "unat (of_nat n :: uint16) = n"
  using assms by (simp add: unat_of_nat)

lemma putRecord_write:
  assumes fit: "unat pos + 4 + length key + length val \<le> length (data node)"
    and len: "length (data node) < 65536"
  shows "putRecord node pos key val =
         Inr (node\<lparr>data :=
           slice_store (slice_store
             (put16_at (put16_at (data node) (unat pos) (of_nat (length key))) (unat pos + 2)
                (of_nat (length val)))
             (unat pos + 4) key) (unat pos + 4 + length key) val\<rparr>)"
proof -
  define p where "p = unat pos"
  define d1 where "d1 = put16_at (data node) p (of_nat (length key))"
  define d2 where "d2 = put16_at d1 (p + 2) (of_nat (length val))"
  define d3 where "d3 = slice_store d2 (p + 4) key"
  have small: "p + 4 + length key + length val < 65536" using fit len by (simp add: p_def)
  have u2: "unat (pos + 2) = p + 2" and u4: "unat (pos + 4) = p + 4"
    using small by (simp_all add: p_def unat_word_ariths)
  have uk: "unat (of_nat (length key) :: uint16) = length key"
    using small by (simp add: unat_of_nat)
  have u4k: "unat (pos + 4 + of_nat (length key)) = p + 4 + length key"
    using small uk by (simp add: p_def unat_word_ariths)
  have l1: "length d1 = length (data node)" by (simp add: d1_def length_put16_at)
  have l2: "length d2 = length (data node)" by (simp add: d2_def l1 length_put16_at)
  have l3: "length d3 = length (data node)"
    using fit by (simp add: d3_def l2 length_slice_store p_def)
  have w1: "pbind (slice (data node) p (p + 2)) (\<lambda>s. pbind (PutUint16 s (of_nat (length key))) (\<lambda>s'. k (slice_store (data node) p s'))) = k d1"
    for k :: "byte list \<Rightarrow> panic + BNode"
    unfolding d1_def by (rule write16_bind) (use fit in \<open>simp_all add: p_def\<close>)
  have w2: "pbind (slice d1 (p + 2) (p + 4)) (\<lambda>s. pbind (PutUint16 s (of_nat (length val))) (\<lambda>s'. k (slice_store d1 (p + 2) s'))) = k d2"
    for k :: "byte list \<Rightarrow> panic + BNode"
    unfolding d2_def by (rule write16_bind) (use fit l1 in \<open>simp_all add: p_def\<close>)
  have s3: "slice d2 (p + 4) (p + 4 + length key) = Inr (take (length key) (drop (p + 4) d2))"
    using fit l2 by (simp add: slice_def p_def)
  have s4: "slice d3 (p + 4 + length key) (p + 4 + length key + length val)
            = Inr (take (length val) (drop (p + 4 + length key) d3))"
    using fit l3 by (simp add: slice_def p_def)
  have "putRecord node pos key val =
        pbind (slice (data node) p (p + 2)) (\<lambda>s. pbind (PutUint16 s (of_nat (length key))) (\<lambda>s'.
          (\<lambda>a. pbind (slice a (p + 2) (p + 4)) (\<lambda>t. pbind (PutUint16 t (of_nat (length val))) (\<lambda>t'.
            (\<lambda>b. pbind (slice b (p + 4) (p + 4 + length key)) (\<lambda>_.
               pbind (slice (slice_store b (p + 4) key) (p + 4 + length key) (p + 4 + length key + length val)) (\<lambda>_.
               Inr (node\<lparr>data := slice_store (slice_store b (p + 4) key) (p + 4 + length key) val\<rparr>))))
            (slice_store a (p + 2) t'))))
          (slice_store (data node) p s')))"
    by (simp add: putRecord_def Let_def u2 u4 u4k flip: p_def)
  also have "\<dots> = pbind (slice d1 (p + 2) (p + 4)) (\<lambda>t. pbind (PutUint16 t (of_nat (length val))) (\<lambda>t'.
            (\<lambda>b. pbind (slice b (p + 4) (p + 4 + length key)) (\<lambda>_.
               pbind (slice (slice_store b (p + 4) key) (p + 4 + length key) (p + 4 + length key + length val)) (\<lambda>_.
               Inr (node\<lparr>data := slice_store (slice_store b (p + 4) key) (p + 4 + length key) val\<rparr>))))
            (slice_store d1 (p + 2) t')))"
    by (rule w1)
  also have "\<dots> = pbind (slice d2 (p + 4) (p + 4 + length key)) (\<lambda>_.
               pbind (slice (slice_store d2 (p + 4) key) (p + 4 + length key) (p + 4 + length key + length val)) (\<lambda>_.
               Inr (node\<lparr>data := slice_store (slice_store d2 (p + 4) key) (p + 4 + length key) val\<rparr>)))"
    by (rule w2)
  also have "\<dots> = Inr (node\<lparr>data := slice_store d3 (p + 4 + length key) val\<rparr>)"
    using s4 by (simp add: s3 d3_def)
  finally show ?thesis by (simp add: d3_def d2_def d1_def p_def)
qed

text \<open>
  Writing one entry: the three calls succeed, change only the bytes of the entry, and
  leave the entry in the buffer.
\<close>

lemma put_entry:
  assumes nk: "numKeys node = Inr (of_nat N)" and i: "i < N"
    and fit: "4 + 10 * N + off + (4 + length key + length val) \<le> length (data node)"
    and len: "length (data node) < 65536"
  obtains node1 node2 node3 where
    "setPtr node (of_nat i) ptr = Inr node1"
    "setOffset node1 (of_nat i + 1) (of_nat (off + (4 + length key + length val))) = Inr node2"
    "putRecord node2 (Header + 8 * of_nat N + 2 * of_nat N + of_nat off) key val = Inr node3"
    "length (data node3) = length (data node)"
    "\<And>q. q < length (data node) \<Longrightarrow> \<not> in_entry N i off (4 + length key + length val) q
        \<Longrightarrow> data node3 ! q = data node ! q"
    "entry_ok (data node3) N i off (ptr, key, val)"
proof -
  define L where "L = length (data node)"
  define a where "a = 4 + 8 * i"
  define so where "so = 4 + 8 * N + 2 * i"
  define p where "p = 4 + 10 * N + off"
  define ew :: uint16 where "ew = of_nat (off + (4 + length key + length val))"
  define kw :: uint16 where "kw = of_nat (length key)"
  define vw :: uint16 where "vw = of_nat (length val)"
  define D1 where "D1 = put64_at (data node) a ptr"
  define D2 where "D2 = put16_at D1 so ew"
  define D3 where "D3 = put16_at D2 p kw"
  define D4 where "D4 = put16_at D3 (p + 2) vw"
  define D5 where "D5 = slice_store D4 (p + 4) key"
  define D6 where "D6 = slice_store D5 (p + 4 + length key) val"
  have fitL: "p + 4 + length key + length val \<le> L" and lenL: "L < 65536"
    using fit len by (simp_all add: p_def L_def)
  have ao: "a + 8 \<le> so" and op: "so + 2 \<le> p" using i by (simp_all add: a_def so_def p_def)
  have l1: "length D1 = L" by (simp add: D1_def length_put64_at L_def)
  have l2: "length D2 = L" by (simp add: D2_def length_put16_at l1)
  have l3: "length D3 = L" by (simp add: D3_def length_put16_at l2)
  have l4: "length D4 = L" by (simp add: D4_def length_put16_at l3)
  have l5: "length D5 = L" using fitL by (simp add: D5_def length_slice_store l4)
  have l6: "length D6 = L" using fitL by (simp add: D6_def length_slice_store l5)
  \<comment> \<open>each write leaves the bytes outside its range as they were\<close>
  have n1: "D1 ! q = data node ! q" if "q < a \<or> a + 8 \<le> q" for q
    unfolding D1_def by (rule nth_put64_at_other) (rule that)
  have n2: "D2 ! q = D1 ! q" if "q < so \<or> so + 2 \<le> q" for q
    unfolding D2_def by (rule nth_put16_at_other) (rule that)
  have n3: "D3 ! q = D2 ! q" if "q < p \<or> p + 2 \<le> q" for q
    unfolding D3_def by (rule nth_put16_at_other) (rule that)
  have n4: "D4 ! q = D3 ! q" if "q < p + 2 \<or> p + 4 \<le> q" for q
    unfolding D4_def by (rule nth_put16_at_other) (use that in arith)
  have n5: "D5 ! q = D4 ! q" if "q < p + 4 \<or> p + 4 + length key \<le> q" "q < L" for q
    unfolding D5_def by (rule nth_slice_store_other) (use that fitL l4 in simp_all)
  have n6: "D6 ! q = D5 ! q" if "q < p + 4 + length key \<or> p + 4 + length key + length val \<le> q" "q < L" for q
    unfolding D6_def by (rule nth_slice_store_other) (use that fitL l5 in simp_all)
  \<comment> \<open>the three calls\<close>
  have ui: "unat (of_nat i :: uint16) = i" and uN: "unat (of_nat N :: uint16) = N"
    and uo: "unat (of_nat off :: uint16) = off"
    using i fitL lenL by (simp_all add: unat_of_nat16 p_def)
  have s1: "setPtr node (of_nat i) ptr = Inr (node\<lparr>data := D1\<rparr>)"
    using setPtr_unchecked [of "of_nat i" node ptr] i fitL lenL
    by (simp add: ui D1_def a_def L_def p_def)
  have "D1 ! (2 + k) = data node ! (2 + k)" if "k < 2" for k
    using that by (simp add: n1 a_def)
  then have "le16_at D1 2 = le16_at (data node) 2" by (rule le16_at_agree)
  moreover have "numKeys node = Inr (le16_at (data node) 2)"
    by (rule numKeys_read) (use fitL in \<open>simp add: L_def\<close>)
  ultimately have "le16_at D1 2 = of_nat N" using nk by simp
  with numKeys_read [of "node\<lparr>data := D1\<rparr>"] fitL
  have nk1: "numKeys (node\<lparr>data := D1\<rparr>) = Inr (of_nat N)" by (simp add: l1)
  have i1: "(1 :: uint16) \<le> of_nat i + 1" "(of_nat i + 1 :: uint16) \<le> of_nat N"
    and ui1: "unat (of_nat i + 1 :: uint16) = i + 1"
  proof -
    show u: "unat (of_nat i + 1 :: uint16) = i + 1"
      using i fitL lenL by (simp add: unat_word_ariths ui p_def)
    show "(1 :: uint16) \<le> of_nat i + 1" by (simp add: word_le_nat_alt u)
    show "(of_nat i + 1 :: uint16) \<le> of_nat N" using i by (simp add: word_le_nat_alt u uN)
  qed
  have s2: "setOffset (node\<lparr>data := D1\<rparr>) (of_nat i + 1) ew = Inr (node\<lparr>data := D2\<rparr>)"
    using setOffset_in_range [OF nk1 i1, of ew] fitL lenL
    by (simp add: uN ui1 l1 D2_def so_def p_def)
  define pw :: uint16 where "pw = Header + 8 * of_nat N + 2 * of_nat N + of_nat off"
  have up: "unat pw = p"
    using fitL lenL by (simp add: pw_def Header_def unat_word_ariths uN uo p_def)
  have s3: "putRecord (node\<lparr>data := D2\<rparr>) pw key val = Inr (node\<lparr>data := D6\<rparr>)"
    using putRecord_write [of pw key val "node\<lparr>data := D2\<rparr>"] fitL lenL
    by (simp add: up l2 D6_def D5_def D4_def D3_def kw_def vw_def)
  \<comment> \<open>what the node holds afterwards\<close>
  have frame: "D6 ! q = data node ! q"
    if "q < L" "\<not> in_entry N i off (4 + length key + length val) q" for q
  proof -
    from that(2) have "q < a \<or> a + 8 \<le> q" "q < so \<or> so + 2 \<le> q"
      "q < p \<or> p + 4 + length key + length val \<le> q"
      by (auto simp: in_entry_def a_def so_def p_def)
    then show ?thesis using that(1) by (auto simp: n6 n5 n4 n3 n2 n1)
  qed
  have e1: "le64_at D6 a = ptr"
  proof -
    have "D6 ! (a + k) = D1 ! (a + k)" if "k < 8" for k
      using that ao op fitL by (simp add: n6 n5 n4 n3 n2)
    then have "le64_at D6 a = le64_at D1 a" by (rule le64_at_agree)
    then show ?thesis using ao op fitL by (simp add: D1_def le64_at_put64_at L_def)
  qed
  have e2: "le16_at D6 so = ew"
  proof -
    have "D6 ! (so + k) = D2 ! (so + k)" if "k < 2" for k
      using that op fitL by (simp add: n6 n5 n4 n3)
    then have "le16_at D6 so = le16_at D2 so" by (rule le16_at_agree)
    then show ?thesis using op fitL by (simp add: D2_def le16_at_put16_at l1)
  qed
  have e3: "le16_at D6 p = kw"
  proof -
    have "D6 ! (p + k) = D3 ! (p + k)" if "k < 2" for k
      using that fitL by (simp add: n6 n5 n4)
    then have "le16_at D6 p = le16_at D3 p" by (rule le16_at_agree)
    then show ?thesis using fitL by (simp add: D3_def le16_at_put16_at l2)
  qed
  have e4: "le16_at D6 (p + 2) = vw"
  proof -
    have "D6 ! (p + 2 + k) = D4 ! (p + 2 + k)" if "k < 2" for k
      using that fitL by (simp add: n6 n5)
    then have "le16_at D6 (p + 2) = le16_at D4 (p + 2)" by (rule le16_at_agree)
    then show ?thesis using fitL by (simp add: D4_def le16_at_put16_at l3)
  qed
  have e5: "take (length key) (drop (p + 4) D6) = key"
  proof -
    have "D6 ! (p + 4 + k) = D5 ! (p + 4 + k)" if "k < length key" for k
      using that fitL by (simp add: n6)
    then have "take (length key) (drop (p + 4) D6) = take (length key) (drop (p + 4) D5)"
      by (rule take_drop_agree) (use fitL l5 l6 in simp_all)
    then show ?thesis using fitL by (simp add: D5_def take_drop_slice_store_same l4)
  qed
  have e6: "take (length val) (drop (p + 4 + length key) D6) = val"
    using fitL by (simp add: D6_def take_drop_slice_store_same l5)
  have ok: "entry_ok D6 N i off (ptr, key, val)"
    using e1 e2 e3 e4 e5 e6 by (simp add: a_def so_def p_def ew_def kw_def vw_def)
  show ?thesis
  proof (rule that [of "node\<lparr>data := D1\<rparr>" "node\<lparr>data := D2\<rparr>" "node\<lparr>data := D6\<rparr>"])
    show "setPtr node (of_nat i) ptr = Inr (node\<lparr>data := D1\<rparr>)" by (rule s1)
    show "setOffset (node\<lparr>data := D1\<rparr>) (of_nat i + 1) (of_nat (off + (4 + length key + length val)))
          = Inr (node\<lparr>data := D2\<rparr>)" using s2 by (simp only: ew_def)
    show "putRecord (node\<lparr>data := D2\<rparr>) (Header + 8 * of_nat N + 2 * of_nat N + of_nat off) key val
          = Inr (node\<lparr>data := D6\<rparr>)" using s3 by (simp only: pw_def)
    show "length (data (node\<lparr>data := D6\<rparr>)) = length (data node)" by (simp add: l6 L_def)
    show "data (node\<lparr>data := D6\<rparr>) ! q = data node ! q"
      if "q < length (data node)" "\<not> in_entry N i off (4 + length key + length val) q" for q
      using frame [of q] that by (simp add: L_def)
    show "entry_ok (data (node\<lparr>data := D6\<rparr>)) N i off (ptr, key, val)" using ok by simp
  qed
qed

lemma entry_ok_agree:
  assumes ok: "entry_ok d N i off (ptr, key, val)"
    and len: "length d' = length d"
    and fit: "4 + 10 * N + off + (4 + length key + length val) \<le> length d" and i: "i < N"
    and agree: "\<And>q. q < length d \<Longrightarrow> in_entry N i off (4 + length key + length val) q
                  \<Longrightarrow> d' ! q = d ! q"
  shows "entry_ok d' N i off (ptr, key, val)"
proof -
  have a1: "le64_at d' (4 + 8 * i) = le64_at d (4 + 8 * i)"
    by (rule le64_at_agree, rule agree) (use fit i in \<open>simp_all add: in_entry_def\<close>)
  have a2: "le16_at d' (4 + 8 * N + 2 * i) = le16_at d (4 + 8 * N + 2 * i)"
    by (rule le16_at_agree, rule agree) (use fit i in \<open>simp_all add: in_entry_def\<close>)
  have a3: "le16_at d' (4 + 10 * N + off) = le16_at d (4 + 10 * N + off)"
    by (rule le16_at_agree, rule agree) (use fit i in \<open>simp_all add: in_entry_def\<close>)
  have a4: "le16_at d' (4 + 10 * N + off + 2) = le16_at d (4 + 10 * N + off + 2)"
    by (rule le16_at_agree, rule agree) (use fit i in \<open>simp_all add: in_entry_def\<close>)
  have a5: "take (length key) (drop (4 + 10 * N + off + 4) d')
            = take (length key) (drop (4 + 10 * N + off + 4) d)"
    by (rule take_drop_agree, rule agree) (use fit i len in \<open>simp_all add: in_entry_def\<close>)
  have a6: "take (length val) (drop (4 + 10 * N + off + 4 + length key) d')
            = take (length val) (drop (4 + 10 * N + off + 4 + length key) d)"
    by (rule take_drop_agree, rule agree) (use fit i len in \<open>simp_all add: in_entry_def\<close>)
  show ?thesis using ok by (simp only: entry_ok.simps a1 a2 a3 a4 a5 a6)
qed

text \<open>
  Writing a run of entries, by induction on the run: later entries do not touch the
  bytes of earlier ones.
\<close>

lemma putEntries_ok:
  assumes "numKeys node = Inr (of_nat N)" "i + length es = N"
    and "4 + 10 * N + off + recs_size es \<le> length (data node)" "length (data node) < 65536"
  shows "\<exists>node'. putEntries node (of_nat N) (of_nat i) (of_nat off) es = Inr node'
           \<and> length (data node') = length (data node)
           \<and> (\<forall>q < length (data node). \<not> in_entries N i (length es) off (recs_size es) q
                  \<longrightarrow> data node' ! q = data node ! q)
           \<and> entries_ok (data node') N i off es"
  using assms
proof (induction es arbitrary: node i off)
  case Nil
  then show ?case by simp
next
  case (Cons e es)
  obtain ptr key val where e: "e = (ptr, key, val)" by (cases e)
  define sz where "sz = 4 + length key + length val"
  have i: "i < N" using Cons.prems(2) by simp
  have fit: "4 + 10 * N + off + sz + recs_size es \<le> length (data node)"
    using Cons.prems(3) by (simp add: e sz_def)
  then have fit1: "4 + 10 * N + off + (4 + length key + length val) \<le> length (data node)"
    by (simp add: sz_def)
  obtain node1 node2 node3 where
    s1: "setPtr node (of_nat i) ptr = Inr node1" and
    s2: "setOffset node1 (of_nat i + 1) (of_nat (off + (4 + length key + length val))) = Inr node2" and
    s3: "putRecord node2 (Header + 8 * of_nat N + 2 * of_nat N + of_nat off) key val = Inr node3" and
    l3: "length (data node3) = length (data node)" and
    f3: "\<And>q. q < length (data node) \<Longrightarrow> \<not> in_entry N i off (4 + length key + length val) q
          \<Longrightarrow> data node3 ! q = data node ! q" and
    ok3: "entry_ok (data node3) N i off (ptr, key, val)"
    by (rule put_entry [OF Cons.prems(1) i fit1 Cons.prems(4), of ptr]) (rule that)
  \<comment> \<open>the header is outside the entry\<close>
  have "data node3 ! (2 + k) = data node ! (2 + k)" if "k < 2" for k
    using that fit by (intro f3) (simp_all add: in_entry_def)
  then have "le16_at (data node3) 2 = le16_at (data node) 2" by (rule le16_at_agree)
  moreover have "numKeys node = Inr (le16_at (data node) 2)"
    by (rule numKeys_read) (use fit in simp)
  moreover have "numKeys node3 = Inr (le16_at (data node3) 2)"
    by (rule numKeys_read) (use fit l3 in simp)
  ultimately have nk3: "numKeys node3 = Inr (of_nat N)" using Cons.prems(1) by simp
  have "\<exists>node'. putEntries node3 (of_nat N) (of_nat (i + 1)) (of_nat (off + sz)) es = Inr node'
           \<and> length (data node') = length (data node3)
           \<and> (\<forall>q < length (data node3). \<not> in_entries N (i + 1) (length es) (off + sz) (recs_size es) q
                  \<longrightarrow> data node' ! q = data node3 ! q)
           \<and> entries_ok (data node') N (i + 1) (off + sz) es"
    by (rule Cons.IH [OF nk3]) (use Cons.prems fit l3 in simp_all)
  then obtain node' where
    p: "putEntries node3 (of_nat N) (of_nat (i + 1)) (of_nat (off + sz)) es = Inr node'" and
    l': "length (data node') = length (data node3)" and
    f': "\<And>q. q < length (data node3) \<Longrightarrow> \<not> in_entries N (i + 1) (length es) (off + sz) (recs_size es) q
            \<Longrightarrow> data node' ! q = data node3 ! q" and
    ok': "entries_ok (data node') N (i + 1) (off + sz) es"
    by blast
  have w1: "(of_nat off + 4 + of_nat (length key) + of_nat (length val) :: uint16)
            = of_nat (off + (4 + length key + length val))"
    by simp
  have w2: "(of_nat i + 1 :: uint16) = of_nat (i + 1)" by simp
  have run: "putEntries node (of_nat N) (of_nat i) (of_nat off) (e # es) = Inr node'"
    unfolding e putEntries.simps Let_def w1
    by (simp only: s1 s2 s3 pbind.simps) (simp only: w2 p [unfolded sz_def])
  have cnt: "i + 1 + length es \<le> N" using Cons.prems(2) by simp
  have frame: "data node' ! q = data node ! q"
    if "q < length (data node)" "\<not> in_entries N i (length (e # es)) off (recs_size (e # es)) q" for q
  proof -
    from that(2) have a: "\<not> in_entries N (i + 1) (length es) (off + sz) (recs_size es) q"
      and b: "\<not> in_entry N i off (4 + length key + length val) q"
      by (auto simp: in_entries_def in_entry_def e sz_def)
    from f' [OF _ a] f3 [OF that(1) b] that(1) l3 show ?thesis by simp
  qed
  have "entry_ok (data node') N i off (ptr, key, val)"
  proof (rule entry_ok_agree [OF ok3])
    show "length (data node') = length (data node3)" by (rule l')
    show "4 + 10 * N + off + (4 + length key + length val) \<le> length (data node3)"
      using fit1 l3 by simp
    show "i < N" by (rule i)
    show "data node' ! q = data node3 ! q"
      if "q < length (data node3)" "in_entry N i off (4 + length key + length val) q" for q
    proof (rule f' [OF that(1)])
      show "\<not> in_entries N (i + 1) (length es) (off + sz) (recs_size es) q"
        using that(2) cnt by (auto simp: in_entries_def in_entry_def sz_def)
    qed
  qed
  then have ok: "entries_ok (data node') N i off (e # es)"
    using ok' by (simp add: e sz_def)
  show ?case
    using run l' l3 frame ok by auto
qed

lemma recs_size_append: "recs_size (xs @ ys) = recs_size xs + recs_size ys"
  by (induction xs) simp_all

lemma recs_size_take_Suc:
  assumes "j < length es"
  shows "recs_size (take (Suc j) es) = recs_size (take j es) + rec_size (es ! j)"
  using assms by (simp add: take_Suc_conv_app_nth recs_size_append)

lemma recs_size_take_le: "recs_size (take j es) \<le> recs_size es"
proof -
  have "recs_size es = recs_size (take j es) + recs_size (drop j es)"
    by (simp flip: recs_size_append)
  then show ?thesis by simp
qed

lemma entries_ok_nth:
  assumes "entries_ok d N i off es" "j < length es"
  shows "entry_ok d N (i + j) (off + recs_size (take j es)) (es ! j)"
  using assms
proof (induction es arbitrary: i off j)
  case Nil
  then show ?case by simp
next
  case (Cons e es)
  show ?case
  proof (cases j)
    case 0
    with Cons.prems show ?thesis by simp
  next
    case (Suc k)
    with Cons.prems have "entries_ok d N (i + 1) (off + rec_size e) es" "k < length es"
      by simp_all
    from Cons.IH [OF this] show ?thesis by (simp add: Suc add.assoc)
  qed
qed

lemma entry_okD:
  assumes "entry_ok d N i off (ptr, key, val)"
  shows "le64_at d (4 + 8 * i) = ptr"
    and "le16_at d (4 + 8 * N + 2 * i) = of_nat (off + (4 + length key + length val))"
    and "le16_at d (4 + 10 * N + off) = of_nat (length key)"
    and "le16_at d (4 + 10 * N + off + 2) = of_nat (length val)"
    and "take (length key) (drop (4 + 10 * N + off + 4) d) = key"
    and "take (length val) (drop (4 + 10 * N + off + 4 + length key) d) = val"
  using assms by (simp_all only: entry_ok.simps)

lemma encode_ok:
  assumes fit: "4 + 10 * length es + recs_size es \<le> length (data buf)"
    and len: "length (data buf) < 65536"
  shows "\<exists>node. encode buf kind es = Inr node
           \<and> length (data node) = length (data buf)
           \<and> bType node = Inr kind
           \<and> numKeys node = Inr (of_nat (length es))
           \<and> entries_ok (data node) (length es) 0 0 es"
proof -
  define N where "N = length es"
  define D0 where "D0 = put16_at (put16_at (data buf) 0 kind) 2 (of_nat N)"
  have l0: "length D0 = length (data buf)" by (simp add: D0_def length_put16_at)
  have four: "4 \<le> length (data buf)" using fit by simp
  have s0: "setHeader buf kind (of_nat N) = Inr (buf\<lparr>data := D0\<rparr>)"
    unfolding D0_def by (rule setHeader_write [OF four])
  have h0: "le16_at D0 0 = kind" "le16_at D0 2 = of_nat N"
    using four by (simp_all add: D0_def le16_at_put16_at_other le16_at_put16_at length_put16_at)
  from numKeys_read [of "buf\<lparr>data := D0\<rparr>"] four
  have nk0: "numKeys (buf\<lparr>data := D0\<rparr>) = Inr (of_nat N)" by (simp add: l0 h0)
  have "\<exists>node'. putEntries (buf\<lparr>data := D0\<rparr>) (of_nat N) (of_nat 0) (of_nat 0) es = Inr node'
           \<and> length (data node') = length (data (buf\<lparr>data := D0\<rparr>))
           \<and> (\<forall>q < length (data (buf\<lparr>data := D0\<rparr>)). \<not> in_entries N 0 (length es) 0 (recs_size es) q
                  \<longrightarrow> data node' ! q = data (buf\<lparr>data := D0\<rparr>) ! q)
           \<and> entries_ok (data node') N 0 0 es"
    by (rule putEntries_ok [OF nk0]) (use fit len in \<open>simp_all add: N_def l0\<close>)
  then obtain node' where
    p: "putEntries (buf\<lparr>data := D0\<rparr>) (of_nat N) 0 0 es = Inr node'" and
    l': "length (data node') = length (data buf)" and
    f': "\<And>q. q < length (data buf) \<Longrightarrow> \<not> in_entries N 0 (length es) 0 (recs_size es) q
            \<Longrightarrow> data node' ! q = D0 ! q" and
    ok': "entries_ok (data node') N 0 0 es"
    by (auto simp: l0)
  have enc: "encode buf kind es = Inr node'"
    by (simp add: encode_def Let_def s0 [unfolded N_def] p [unfolded N_def])
  have "data node' ! (0 + k) = D0 ! (0 + k)" if "k < 2" for k
    using that four by (intro f') (simp_all add: in_entries_def)
  then have "le16_at (data node') 0 = le16_at D0 0" by (rule le16_at_agree)
  with bType_read [of node'] four have bt: "bType node' = Inr kind" by (simp add: l' h0)
  have "data node' ! (2 + k) = D0 ! (2 + k)" if "k < 2" for k
    using that four by (intro f') (simp_all add: in_entries_def)
  then have "le16_at (data node') 2 = le16_at D0 2" by (rule le16_at_agree)
  with numKeys_read [of node'] four have nk: "numKeys node' = Inr (of_nat N)" by (simp add: l' h0)
  show ?thesis using enc l' bt nk ok' by (auto simp: N_def)
qed

text \<open>Reading the entries of a buffer that holds a list of entries.\<close>

lemma decode_entry:
  assumes nk: "numKeys node = Inr (of_nat (length es))"
    and ok: "entries_ok (data node) (length es) 0 0 es"
    and fit: "4 + 10 * length es + recs_size es \<le> length (data node)"
    and len: "length (data node) < 65536"
    and j: "j < length es" and e: "es ! j = (ptr, key, val)"
  shows "getPtr node (of_nat j) = Inr ptr"
    and "getOffset node (of_nat (j + 1)) = Inr (of_nat (recs_size (take (j + 1) es)))"
    and "kvPos node (of_nat (j + 1)) = Inr (of_nat (4 + 10 * length es + recs_size (take (j + 1) es)))"
proof -
  define N where "N = length es"
  define off where "off = recs_size (take j es)"
  define Nw :: uint16 where "Nw = of_nat N"
  define jw :: uint16 where "jw = of_nat (j + 1)"
  define iw :: uint16 where "iw = of_nat j"
  have fitN: "4 + 10 * N + recs_size es \<le> length (data node)" and jN: "j < N"
    using fit j by (simp_all add: N_def)
  have uN: "unat Nw = N" unfolding Nw_def by (rule unat_of_nat16) (use fitN len in simp)
  have ui: "unat iw = j" unfolding iw_def by (rule unat_of_nat16) (use fitN len jN in simp)
  have uj: "unat jw = j + 1" unfolding jw_def by (rule unat_of_nat16) (use fitN len jN in simp)
  have nk': "numKeys node = Inr Nw" using nk by (simp only: Nw_def N_def)
  have "entry_ok (data node) (length es) (0 + j) (0 + recs_size (take j es)) (es ! j)"
    by (rule entries_ok_nth [OF ok j])
  then have ej: "entry_ok (data node) N j off (ptr, key, val)"
    by (simp only: e N_def off_def add_0)
  have "recs_size (take (Suc j) es) = recs_size (take j es) + rec_size (es ! j)"
    by (rule recs_size_take_Suc [OF j])
  then have sz: "off + (4 + length key + length val) = recs_size (take (j + 1) es)"
    by (simp add: e off_def)
  have "getPtr node iw = Inr (le64_at (data node) (4 + 8 * unat iw))"
    by (rule getPtr_unchecked) (use fitN len jN in \<open>simp_all add: ui\<close>)
  then have "getPtr node iw = Inr ptr"
    by (simp only: ui entry_okD(1) [OF ej])
  then show "getPtr node (of_nat j) = Inr ptr" by (simp only: iw_def)
  have i1: "1 \<le> jw" "jw \<le> Nw"
    using jN by (simp_all add: word_le_nat_alt uj uN)
  have b: "4 + 10 * unat Nw \<le> length (data node)" "4 + 10 * unat Nw < 65536"
    using fitN len by (simp_all add: uN)
  have q: "4 + 8 * unat Nw + 2 * (unat jw - 1) = 4 + 8 * N + 2 * j" by (simp add: uN uj)
  have slot: "le16_at (data node) (4 + 8 * N + 2 * j) = of_nat (recs_size (take (j + 1) es))"
    by (simp only: entry_okD(2) [OF ej] sz)
  have "getOffset node jw = Inr (le16_at (data node) (4 + 8 * unat Nw + 2 * (unat jw - 1)))"
    by (rule getOffset_in_range [OF nk' i1 b])
  then have "getOffset node jw = Inr (of_nat (recs_size (take (j + 1) es)))"
    by (simp only: q slot)
  then show "getOffset node (of_nat (j + 1)) = Inr (of_nat (recs_size (take (j + 1) es)))"
    by (simp only: jw_def)
  have "kvPos node jw
        = Inr (Header + 8 * Nw + 2 * Nw + le16_at (data node) (4 + 8 * unat Nw + 2 * (unat jw - 1)))"
    by (rule kvPos_in_range [OF nk' i1 b])
  moreover have "Header + 8 * Nw + 2 * Nw + of_nat (recs_size (take (j + 1) es))
             = (of_nat (4 + 10 * N + recs_size (take (j + 1) es)) :: uint16)"
    by (simp add: Header_def Nw_def)
  ultimately have "kvPos node jw = Inr (of_nat (4 + 10 * N + recs_size (take (j + 1) es)))"
    by (simp only: q slot)
  then show "kvPos node (of_nat (j + 1))
                = Inr (of_nat (4 + 10 * length es + recs_size (take (j + 1) es)))"
    by (simp only: jw_def N_def)
qed

lemma decode_record:
  assumes nk: "numKeys node = Inr (of_nat (length es))"
    and ok: "entries_ok (data node) (length es) 0 0 es"
    and fit: "4 + 10 * length es + recs_size es \<le> length (data node)"
    and len: "length (data node) < 65536"
    and j: "1 \<le> j" "j < length es" and e: "es ! j = (ptr, key, val)"
  shows "getKey node (of_nat j) = Inr key" and "getVal node (of_nat j) = Inr val"
proof -
  define N where "N = length es"
  define off where "off = recs_size (take j es)"
  define pos where "pos = 4 + 10 * N + off"
  define Nw :: uint16 where "Nw = of_nat N"
  define jw :: uint16 where "jw = of_nat j"
  have fitN: "4 + 10 * N + recs_size es \<le> length (data node)" and jN: "j < N"
    using fit j by (simp_all add: N_def)
  have uN: "unat Nw = N" unfolding Nw_def by (rule unat_of_nat16) (use fitN len in simp)
  have uj: "unat jw = j" unfolding jw_def by (rule unat_of_nat16) (use fitN len jN in simp)
  have nk': "numKeys node = Inr Nw" using nk by (simp only: Nw_def N_def)
  have "entry_ok (data node) (length es) (0 + j) (0 + recs_size (take j es)) (es ! j)"
    by (rule entries_ok_nth [OF ok j(2)])
  then have ej: "entry_ok (data node) N j off (ptr, key, val)"
    by (simp only: e N_def off_def add_0)
  have "recs_size (take (Suc j) es) = off + rec_size (es ! j)"
    unfolding off_def by (rule recs_size_take_Suc [OF j(2)])
  moreover have "recs_size (take (Suc j) es) \<le> recs_size es" by (rule recs_size_take_le)
  ultimately have sz: "off + (4 + length key + length val) \<le> recs_size es" by (simp add: e)
  have small: "pos + 4 + length key + length val \<le> length (data node)"
    using sz fitN by (simp add: pos_def)
  have uoff: "unat (of_nat off :: uint16) = off"
    by (rule unat_of_nat16) (use small len in \<open>simp add: pos_def\<close>)
  have uk: "unat (of_nat (length key) :: uint16) = length key"
    by (rule unat_of_nat16) (use small len in simp)
  have uv: "unat (of_nat (length val) :: uint16) = length val"
    by (rule unat_of_nat16) (use small len in simp)
  \<comment> \<open>the offset slot of index \<open>j\<close> holds the end of the record before\<close>
  have j': "j - 1 < length es" using j by simp
  obtain ptr' key' val' where e': "es ! (j - 1) = (ptr', key', val')" by (cases "es ! (j - 1)")
  have jn: "j - 1 + 1 = j" using j by simp
  have "getOffset node (of_nat (j - 1 + 1)) = Inr (of_nat (recs_size (take (j - 1 + 1) es)))"
    by (rule decode_entry(2) [OF nk ok fit len j' e'])
  then have go: "getOffset node jw = Inr (of_nat off)" by (simp only: jn jw_def off_def)
  have i1: "1 \<le> jw" "jw \<le> Nw"
    using j jN by (simp_all add: word_le_nat_alt uj uN)
  have b: "4 + 10 * unat Nw \<le> length (data node)" "4 + 10 * unat Nw < 65536"
    using fitN len by (simp_all add: uN)
  have "getOffset node jw = Inr (le16_at (data node) (4 + 8 * unat Nw + 2 * (unat jw - 1)))"
    by (rule getOffset_in_range [OF nk' i1 b])
  with go have slot: "le16_at (data node) (4 + 8 * unat Nw + 2 * (unat jw - 1)) = of_nat off"
    by simp
  have "4 + 10 * unat Nw + unat (le16_at (data node) (4 + 8 * unat Nw + 2 * (unat jw - 1)))
        = 4 + 10 * unat Nw + off"
    by (simp only: slot uoff)
  then have p: "pos = 4 + 10 * unat Nw + unat (le16_at (data node) (4 + 8 * unat Nw + 2 * (unat jw - 1)))"
    by (simp add: pos_def uN)
  have kl: "length key = unat (le16_at (data node) pos)"
    by (simp only: pos_def entry_okD(3) [OF ej] uk)
  have vl: "length val = unat (le16_at (data node) (pos + 2))"
    by (simp only: pos_def entry_okD(4) [OF ej] uv)
  have kv: "take (length key) (drop (pos + 4) (data node)) = key"
    "take (length val) (drop (pos + 4 + length key) (data node)) = val"
    by (simp_all only: pos_def entry_okD(5,6) [OF ej])
  have "getKey node jw = Inr (take (length key) (drop (pos + 4) (data node)))"
    by (rule getKey_getVal_in_range(2) [OF nk' i1 b(1) len p kl vl small])
  then show "getKey node (of_nat j) = Inr key" by (simp only: kv jw_def)
  have "getVal node jw = Inr (take (length val) (drop (pos + 4 + length key) (data node)))"
    by (rule getKey_getVal_in_range(3) [OF nk' i1 b(1) len p kl vl small])
  then show "getVal node (of_nat j) = Inr val" by (simp only: kv jw_def)
qed

text \<open>
  Encoding a list of entries into a buffer that is large enough succeeds.  Decoding
  gives back the kind, the key count, every child pointer, every offset, and the key
  and the value of every entry but the first; for the first entry \<open>getKey\<close> and
  \<open>getVal\<close> fail.  The encoded size is the header, ten bytes for each entry and the
  records.
\<close>

lemma encode_decode_except_first:
  assumes fit: "4 + 10 * length es + recs_size es \<le> length (data buf)"
    and len: "length (data buf) < 65536"
  shows "\<exists>node. encode buf kind es = Inr node
           \<and> bType node = Inr kind
           \<and> numKeys node = Inr (of_nat (length es))
           \<and> (\<forall>j < length es.
                 getPtr node (of_nat j) = Inr (fst (es ! j))
                 \<and> getOffset node (of_nat (j + 1)) = Inr (of_nat (recs_size (take (j + 1) es)))
                 \<and> (1 \<le> j \<longrightarrow> getKey node (of_nat j) = Inr (fst (snd (es ! j)))
                                \<and> getVal node (of_nat j) = Inr (snd (snd (es ! j)))))
           \<and> getKey node 0 = Inl (AssertPanic ''assertion failed: offsetPos: idx out of range'')
           \<and> getVal node 0 = Inl (AssertPanic ''assertion failed: offsetPos: idx out of range'')
           \<and> (0 < length es \<longrightarrow>
                 numBytes node = Inr (of_nat (4 + 10 * length es + recs_size es)))"
proof -
  from encode_ok [OF fit len, of kind] obtain node where
    enc: "encode buf kind es = Inr node" and l: "length (data node) = length (data buf)" and
    bt: "bType node = Inr kind" and nk: "numKeys node = Inr (of_nat (length es))" and
    ok: "entries_ok (data node) (length es) 0 0 es"
    by blast
  have fit': "4 + 10 * length es + recs_size es \<le> length (data node)"
    and len': "length (data node) < 65536"
    using fit len l by simp_all
  have each: "getPtr node (of_nat j) = Inr (fst (es ! j))
        \<and> getOffset node (of_nat (j + 1)) = Inr (of_nat (recs_size (take (j + 1) es)))
        \<and> (1 \<le> j \<longrightarrow> getKey node (of_nat j) = Inr (fst (snd (es ! j)))
                       \<and> getVal node (of_nat j) = Inr (snd (snd (es ! j))))"
    if j: "j < length es" for j
  proof -
    obtain ptr key val where e: "es ! j = (ptr, key, val)" by (cases "es ! j")
    from decode_entry(1,2) [OF nk ok fit' len' j e]
    have a: "getPtr node (of_nat j) = Inr ptr"
      "getOffset node (of_nat (j + 1)) = Inr (of_nat (recs_size (take (j + 1) es)))" .
    have b: "getKey node (of_nat j) = Inr key \<and> getVal node (of_nat j) = Inr val" if "1 \<le> j"
      using decode_record [OF nk ok fit' len' that j e] by simp
    from a b show ?thesis by (simp add: e)
  qed
  have z: "getKey node 0 = Inl (AssertPanic ''assertion failed: offsetPos: idx out of range'')"
    "getVal node 0 = Inl (AssertPanic ''assertion failed: offsetPos: idx out of range'')"
    by (rule getKey_getVal_zero [OF nk])+
  have nb: "numBytes node = Inr (of_nat (4 + 10 * length es + recs_size es))" if "0 < length es"
  proof -
    have j: "length es - 1 < length es" and jn: "length es - 1 + 1 = length es"
      using that by simp_all
    obtain ptr key val where e: "es ! (length es - 1) = (ptr, key, val)"
      by (cases "es ! (length es - 1)")
    have "kvPos node (of_nat (length es - 1 + 1))
          = Inr (of_nat (4 + 10 * length es + recs_size (take (length es - 1 + 1) es)))"
      by (rule decode_entry(3) [OF nk ok fit' len' j e])
    then have "kvPos node (of_nat (length es)) = Inr (of_nat (4 + 10 * length es + recs_size es))"
      by (simp only: jn take_all [OF order_refl])
    then show ?thesis by (simp add: numBytes_kvPos [OF nk])
  qed
  from enc bt nk each z nb show ?thesis by blast
qed

text \<open>
  A page holds every single record within the maximum key and value lengths; two
  records of maximum length need a buffer of 8032 bytes.
\<close>

lemma encode_single_fits:
  assumes page: "length (data buf) = BTreePageSize"
    and k: "length key \<le> BTreeMaxKeySize" and v: "length val \<le> BTreeMaxValSize"
  shows "\<exists>node. encode buf kind [(ptr, key, val)] = Inr node
           \<and> numKeys node = Inr 1
           \<and> numBytes node = Inr (of_nat (18 + length key + length val))
           \<and> unat (of_nat (18 + length key + length val) :: uint16) = 18 + length key + length val
           \<and> 18 + length key + length val \<le> BTreePageSize"
proof -
  have b: "18 + length key + length val \<le> 4018"
    using k v by (simp add: BTreeMaxKeySize_def BTreeMaxValSize_def)
  have fit: "4 + 10 * length [(ptr, key, val)] + recs_size [(ptr, key, val)] \<le> length (data buf)"
    and len: "length (data buf) < 65536"
    using b page by (simp_all add: BTreePageSize_def)
  from encode_decode_except_first [OF fit len, of kind] obtain node where
    "encode buf kind [(ptr, key, val)] = Inr node" "numKeys node = Inr 1"
    "numBytes node = Inr (of_nat (18 + length key + length val))"
    by (auto simp: add.assoc)
  moreover have "unat (of_nat (18 + length key + length val) :: uint16) = 18 + length key + length val"
    by (rule unat_of_nat16) (use b in simp)
  ultimately show ?thesis using b by (auto simp: BTreePageSize_def)
qed

lemma encode_two_max_size:
  assumes len: "8032 \<le> length (data buf)" "length (data buf) < 65536"
    and k: "length key1 = BTreeMaxKeySize" "length key2 = BTreeMaxKeySize"
    and v: "length val1 = BTreeMaxValSize" "length val2 = BTreeMaxValSize"
  shows "\<exists>node. encode buf kind [(ptr1, key1, val1), (ptr2, key2, val2)] = Inr node
           \<and> numKeys node = Inr 2 \<and> numBytes node = Inr 8032"
proof -
  have fit: "4 + 10 * length [(ptr1, key1, val1), (ptr2, key2, val2)]
               + recs_size [(ptr1, key1, val1), (ptr2, key2, val2)] \<le> length (data buf)"
    using len k v by (simp add: BTreeMaxKeySize_def BTreeMaxValSize_def)
  from encode_decode_except_first [OF fit len(2), of kind] k v show ?thesis
    by (auto simp: BTreeMaxKeySize_def BTreeMaxValSize_def)
qed

section \<open>Encoding and decoding an example node\<close>

lemma zero_page_prefix:
  "zero_page = \<lparr>data = [0, 0, 0, 0, 0, 0, 0, 0, 0, 0, 0, 0, 0, 0, 0, 0, 0, 0, 0, 0, 0, 0, 0, 0, 0, 0, 0, 0, 0, 0, 0, 0, 0, 0, 0, 0, 0, 0, 0, 0, 0, 0]
      @ replicate 4054 0\<rparr>"
proof -
  have "replicate 4096 (0::byte) = replicate 42 0 @ replicate 4054 0"
    by (simp add: replicate_add [symmetric])
  moreover have "replicate 42 (0::byte) = [0, 0, 0, 0, 0, 0, 0, 0, 0, 0, 0, 0, 0, 0, 0, 0, 0, 0, 0, 0, 0, 0, 0, 0, 0, 0, 0, 0, 0, 0, 0, 0, 0, 0, 0, 0, 0, 0, 0, 0, 0, 0]"
    by (simp add: numeral_eq_Suc)
  ultimately show ?thesis by (simp only: zero_page_def)
qed

lemma encode_node_two:
  "encode zero_page BNode_Node [(7, hello, []), (9, world, [])] = Inr node_two"
proof -
  define d1 :: BNode where "d1 = \<lparr>data = [0, 0, 2, 0, 0, 0, 0, 0, 0, 0, 0, 0, 0, 0, 0, 0, 0, 0, 0, 0, 0, 0, 0, 0, 0, 0, 0, 0, 0, 0, 0, 0, 0, 0, 0, 0, 0, 0, 0, 0, 0, 0]
      @ replicate 4054 0\<rparr>"
  define d2 :: BNode where "d2 = \<lparr>data = [0, 0, 2, 0, 7, 0, 0, 0, 0, 0, 0, 0, 0, 0, 0, 0, 0, 0, 0, 0, 0, 0, 0, 0, 0, 0, 0, 0, 0, 0, 0, 0, 0, 0, 0, 0, 0, 0, 0, 0, 0, 0]
      @ replicate 4054 0\<rparr>"
  define d3 :: BNode where "d3 = \<lparr>data = [0, 0, 2, 0, 7, 0, 0, 0, 0, 0, 0, 0, 0, 0, 0, 0, 0, 0, 0, 0, 9, 0, 0, 0, 0, 0, 0, 0, 0, 0, 0, 0, 0, 0, 0, 0, 0, 0, 0, 0, 0, 0]
      @ replicate 4054 0\<rparr>"
  define d4 :: BNode where "d4 = \<lparr>data = [0, 0, 2, 0, 7, 0, 0, 0, 0, 0, 0, 0, 0, 0, 0, 0, 0, 0, 0, 0, 9, 0, 0, 0, 5, 0, 0, 0, 104, 101, 108, 108, 111, 0, 0, 0, 0, 0, 0, 0, 0, 0]
      @ replicate 4054 0\<rparr>"
  define d5 :: BNode where "d5 = \<lparr>data = [0, 0, 2, 0, 7, 0, 0, 0, 0, 0, 0, 0, 9, 0, 0, 0, 0, 0, 0, 0, 9, 0, 0, 0, 5, 0, 0, 0, 104, 101, 108, 108, 111, 0, 0, 0, 0, 0, 0, 0, 0, 0]
      @ replicate 4054 0\<rparr>"
  define d6 :: BNode where "d6 = \<lparr>data = [0, 0, 2, 0, 7, 0, 0, 0, 0, 0, 0, 0, 9, 0, 0, 0, 0, 0, 0, 0, 9, 0, 18, 0, 5, 0, 0, 0, 104, 101, 108, 108, 111, 0, 0, 0, 0, 0, 0, 0, 0, 0]
      @ replicate 4054 0\<rparr>"
  define d7 :: BNode where "d7 = \<lparr>data = [0, 0, 2, 0, 7, 0, 0, 0, 0, 0, 0, 0, 9, 0, 0, 0, 0, 0, 0, 0, 9, 0, 18, 0, 5, 0, 0, 0, 104, 101, 108, 108, 111, 5, 0, 0, 0, 119, 111, 114, 108, 100]
      @ replicate 4054 0\<rparr>"

  have s1: "setHeader zero_page BNode_Node 2 = Inr d1"
    unfolding d1_def zero_page_prefix
    by (simp add: setHeader_def slice_def PutUint16_def slice_store_def BNode_Node_def)
  have s2: "setPtr d1 0 7 = Inr d2"
    unfolding d1_def d2_def
    by (simp add: setPtr_def Header_def slice_def PutUint64_def slice_store_def)
  have s3: "setOffset d2 1 9 = Inr d3"
    unfolding d2_def d3_def
    by (simp add: setOffset_def offsetPos_def assert_def numKeys_def Uint16_def Header_def
        slice_def PutUint16_def slice_store_def)
  have s4: "putRecord d3 24 hello [] = Inr d4"
    unfolding d3_def d4_def
    by (simp add: putRecord_def hello_def slice_def PutUint16_def slice_store_def Let_def)
  have s5: "setPtr d4 1 9 = Inr d5"
    unfolding d4_def d5_def
    by (simp add: setPtr_def Header_def slice_def PutUint64_def slice_store_def)
  have s6: "setOffset d5 2 18 = Inr d6"
    unfolding d5_def d6_def
    by (simp add: setOffset_def offsetPos_def assert_def numKeys_def Uint16_def Header_def
        slice_def PutUint16_def slice_store_def)
  have s7: "putRecord d6 33 world [] = Inr d7"
    unfolding d6_def d7_def
    by (simp add: putRecord_def world_def slice_def PutUint16_def slice_store_def Let_def)
  have e: "d7 = node_two"
    by (simp add: d7_def node_two_def hello_def world_def)
  have h: "length hello = 5" "length world = 5" by (simp_all add: hello_def world_def)
  show ?thesis
    by (simp add: encode_def Header_def h s1 s2 s3 s4 s5 s6 s7 e)
qed

lemma node_two_reads:
  "bType node_two = Inr BNode_Node" "getPtr node_two 0 = Inr 7" "getPtr node_two 1 = Inr 9"
  "getKey node_two 1 = Inr world" "getVal node_two 1 = Inr []"
proof -
  show "bType node_two = Inr BNode_Node"
    by (simp add: bType_def node_two_def slice_def Uint16_def BNode_Node_def)
  show "getPtr node_two 0 = Inr 7" "getPtr node_two 1 = Inr 9"
    by (simp_all add: getPtr_def node_two_def Header_def slice_def Uint64_def)
  have v: "le16_at (data node_two) 20 = 9" "le16_at (data node_two) 33 = 5"
    "le16_at (data node_two) 35 = 0" "take 5 (drop 37 (data node_two)) = world"
    by (simp_all add: le16_at_def node_two_def hello_def world_def)
  have p: "(33::nat) = 4 + 10 * unat (2 :: uint16) + unat (le16_at (data node_two) (4 + 8 * unat (2 :: uint16) + 2 * (unat (1 :: uint16) - 1)))"
    by (simp add: v)
  have k: "(5::nat) = unat (le16_at (data node_two) 33)" "(0::nat) = unat (le16_at (data node_two) (33 + 2))"
    by (simp_all add: v)
  from getKey_getVal_in_range(2,3) [OF numKeys_node_two _ _ _ _ p k] v
  show "getKey node_two 1 = Inr world" "getVal node_two 1 = Inr []"
    by (simp_all add: length_node_two)
qed


text \<open>
  Claim C4 fails for the first record.  Encoding the internal node with the child
  pointers 7 and 9 and the keys \<open>hello\<close> and \<open>world\<close> into a fresh page gives
  \<open>node_two\<close>.  Decoding gives back the kind, the key count, both child pointers,
  both offsets and the second key and value, and fails the assertion of \<open>offsetPos\<close>
  for the first key and value.
\<close>

theorem encode_decode_loses_first_record:
  "encode zero_page BNode_Node [(7, hello, []), (9, world, [])] = Inr node_two
   \<and> bType node_two = Inr BNode_Node \<and> numKeys node_two = Inr 2
   \<and> getPtr node_two 0 = Inr 7 \<and> getPtr node_two 1 = Inr 9
   \<and> getOffset node_two 1 = Inr 9 \<and> getOffset node_two 2 = Inr 18
   \<and> getKey node_two 1 = Inr world \<and> getVal node_two 1 = Inr []
   \<and> getKey node_two 0 = Inl (AssertPanic ''assertion failed: offsetPos: idx out of range'')
   \<and> getVal node_two 0 = Inl (AssertPanic ''assertion failed: offsetPos: idx out of range'')"
  using encode_node_two node_two_reads numKeys_node_two getOffset_node_two
    getKey_getVal_zero [OF numKeys_node_two]
  by simp

end
